theory Spec2Isabelle
  imports Complex_Main
begin

section \<open>Python numbers\<close>

text \<open>
  The generator computes with Python \<^verbatim>\<open>int\<close> (unbounded, modelled as \<^typ>\<open>int\<close>) and
  \<^verbatim>\<open>float\<close> (IEEE 754 binary64). A float is modelled as the real number it denotes, and
  every float operation rounds its exact result to the nearest number with a 53-bit
  significand, ties to even (\<open>fl\<close>). The exponent range is left unbounded: the values of
  this program stay far from overflow and from the subnormal range. \<^verbatim>\<open>math.sqrt\<close> and
  \<^verbatim>\<open>math.sin\<close> are taken as correctly rounded.
\<close>

definition rne :: "real \<Rightarrow> int" where
  "rne x = (let f = \<lfloor>x\<rfloor>; d = x - of_int f in
     if d < 1/2 then f else if 1/2 < d then f + 1 else if even f then f else f + 1)"

definition binade :: "real \<Rightarrow> int" where
  "binade x = \<lfloor>log 2 \<bar>x\<bar>\<rfloor>"

definition ulp_exp :: "real \<Rightarrow> int" where
  "ulp_exp x = binade x - 52"

definition fl :: "real \<Rightarrow> real" where
  "fl x = (if x = 0 then 0 else of_int (rne (x / 2 powi ulp_exp x)) * 2 powi ulp_exp x)"

definition fadd :: "real \<Rightarrow> real \<Rightarrow> real" where
  "fadd x y = fl (x + y)"

definition fsub :: "real \<Rightarrow> real \<Rightarrow> real" where
  "fsub x y = fl (x - y)"

definition fmul :: "real \<Rightarrow> real \<Rightarrow> real" where
  "fmul x y = fl (x * y)"

text \<open>Float division; every use below has a divisor that is a non-zero constant.\<close>

definition fdiv :: "real \<Rightarrow> real \<Rightarrow> real" where
  "fdiv x y = fl (x / y)"

text \<open>\<^verbatim>\<open>float(i)\<close>, the conversion Python applies to an int operand of a float operation.\<close>

definition float_of_int :: "int \<Rightarrow> real" where
  "float_of_int i = fl (of_int i)"

text \<open>\<^verbatim>\<open>a / b\<close> on two ints: the quotient, rounded once. Used where the code guards \<open>b \<noteq> 0\<close>.\<close>

definition int_truediv :: "int \<Rightarrow> int \<Rightarrow> real" where
  "int_truediv a b = fl (of_int a / of_int b)"

text \<open>
  \<^verbatim>\<open>x % m\<close> on floats with \<open>m > 0\<close>. C's \<^verbatim>\<open>fmod\<close> is exact, so for \<open>x \<ge> 0\<close> nothing is
  rounded; for \<open>x < 0\<close> Python adds \<open>m\<close> to the negative remainder, which rounds.
\<close>

definition py_fmod :: "real \<Rightarrow> real \<Rightarrow> real" where
  "py_fmod x m = (let r = x - m * of_int \<lfloor>x / m\<rfloor> in if 0 \<le> x then r else fl r)"

text \<open>\<^verbatim>\<open>int(x)\<close> on a float truncates toward zero.\<close>

definition py_int :: "real \<Rightarrow> int" where
  "py_int x = (if 0 \<le> x then \<lfloor>x\<rfloor> else \<lceil>x\<rceil>)"

definition fsin :: "real \<Rightarrow> real" where
  "fsin x = fl (sin x)"

definition fsqrt :: "real \<Rightarrow> real" where
  "fsqrt x = fl (sqrt x)"

section \<open>Errors and containers\<close>

datatype py_error = KeyError | ZeroDivisionError | IndexError | ValueError

definition py_bind :: "py_error + 'a \<Rightarrow> ('a \<Rightarrow> py_error + 'b) \<Rightarrow> py_error + 'b" where
  "py_bind m f = (case m of Inl e \<Rightarrow> Inl e | Inr v \<Rightarrow> f v)"

definition py_mod :: "int \<Rightarrow> int \<Rightarrow> py_error + int" where
  "py_mod a b = (if b = 0 then Inl ZeroDivisionError else Inr (a mod b))"

text \<open>\<^verbatim>\<open>xs[i]\<close>: an index below zero counts from the end of the list.\<close>

definition py_index :: "'a list \<Rightarrow> int \<Rightarrow> py_error + 'a" where
  "py_index xs i =
     (if 0 \<le> i \<and> i < int (length xs) then Inr (xs ! nat i)
      else if i < 0 \<and> - int (length xs) \<le> i then Inr (xs ! nat (int (length xs) + i))
      else Inl IndexError)"

definition py_max :: "int list \<Rightarrow> py_error + int" where
  "py_max xs = (case xs of [] \<Rightarrow> Inl ValueError | x # r \<Rightarrow> Inr (fold max r x))"

text \<open>\<^verbatim>\<open>max\<close> and \<^verbatim>\<open>min\<close> of a list the code has checked to be non-empty.\<close>

definition list_max :: "int list \<Rightarrow> int" where
  "list_max xs = fold max (tl xs) (hd xs)"

definition list_min :: "int list \<Rightarrow> int" where
  "list_min xs = fold min (tl xs) (hd xs)"

text \<open>Values of the analysis dictionary.\<close>

datatype pyval =
    IntV int
  | FloatV real
  | StrV string
  | ListV "int list"
  | DictV "(string \<times> pyval) list"

section \<open>MusicTheory: constants and catalogs\<close>

text \<open>A note event is the tuple \<^verbatim>\<open>(note, duration, velocity)\<close>.\<close>

type_synonym note_event = "int \<times> int \<times> int"

definition pitch :: "note_event \<Rightarrow> int" where
  "pitch n = fst n"

definition duration_of :: "note_event \<Rightarrow> int" where
  "duration_of n = fst (snd n)"

definition velocity_of :: "note_event \<Rightarrow> int" where
  "velocity_of n = snd (snd n)"

definition phi :: real where
  "phi = fdiv (fadd 1 (fsqrt 5)) 2"

definition phi_inverse :: real where
  "phi_inverse = fdiv 1 phi"

definition note_names :: "string list" where
  "note_names = [''C'', ''C#'', ''D'', ''D#'', ''E'', ''F'', ''F#'', ''G'', ''G#'', ''A'', ''A#'', ''B'']"

definition scales :: "string \<rightharpoonup> int list" where
  "scales = map_of
    [(''major'', [0, 2, 4, 5, 7, 9, 11]),
     (''minor'', [0, 2, 3, 5, 7, 8, 10]),
     (''harmonic_minor'', [0, 2, 3, 5, 7, 8, 11]),
     (''melodic_minor'', [0, 2, 3, 5, 7, 9, 11]),
     (''dorian'', [0, 2, 3, 5, 7, 9, 10]),
     (''phrygian'', [0, 1, 3, 5, 7, 8, 10]),
     (''lydian'', [0, 2, 4, 6, 7, 9, 11]),
     (''mixolydian'', [0, 2, 4, 5, 7, 9, 10]),
     (''pentatonic_major'', [0, 2, 4, 7, 9]),
     (''pentatonic_minor'', [0, 3, 5, 7, 10]),
     (''blues'', [0, 3, 5, 6, 7, 10]),
     (''whole_tone'', [0, 2, 4, 6, 8, 10]),
     (''chromatic'', [0, 1, 2, 3, 4, 5, 6, 7, 8, 9, 10, 11]),
     (''japanese'', [0, 1, 5, 7, 8]),
     (''arabic'', [0, 1, 4, 5, 7, 8, 11]),
     (''gypsy'', [0, 1, 4, 5, 7, 8, 11])]"

definition rhythm_patterns :: "string \<rightharpoonup> int list" where
  "rhythm_patterns = map_of
    [(''straight'', [1, 0, 1, 0, 1, 0, 1, 0]),
     (''swing'', [1, 0, 0, 1, 1, 0, 0, 1]),
     (''syncopated'', [1, 0, 1, 1, 0, 1, 0, 1]),
     (''latin'', [1, 0, 1, 0, 0, 1, 1, 0]),
     (''funk'', [1, 0, 0, 1, 0, 1, 0, 0]),
     (''waltz'', [1, 0, 0, 1, 0, 0])]"


definition get_note_name_digit :: "nat \<Rightarrow> char" where
  "get_note_name_digit d = char_of (48 + d)"

fun str_nat :: "nat \<Rightarrow> string" where
  "str_nat n = (if n < 10 then [get_note_name_digit n]
                else str_nat (n div 10) @ [get_note_name_digit (n mod 10)])"

text \<open>\<^verbatim>\<open>str(i)\<close>, as the f-string of \<^verbatim>\<open>get_note_name\<close> formats the octave.\<close>

definition str_int :: "int \<Rightarrow> string" where
  "str_int i = (if i < 0 then CHR ''-'' # str_nat (nat (- i)) else str_nat (nat i))"

definition get_note_name :: "int \<Rightarrow> string" where
  "get_note_name midi_note =
     (let octave = midi_note div 12 - 1;
          name = note_names ! nat (midi_note mod 12)
      in name @ str_int octave)"

section \<open>MusicTheory: Fibonacci numbers and golden subdivision\<close>

definition fibonacci_sequence :: "int \<Rightarrow> int list" where
  "fibonacci_sequence n =
     (if n \<le> 0 then []
      else if n = 1 then [1]
      else if n = 2 then [1, 1]
      else fold (\<lambda>i fib. fib @ [fib ! (i - 1) + fib ! (i - 2)]) [2..<nat n] [1, 1])"

text \<open>
  The process-wide random source is a stream \<open>rnd\<close> of the values \<^verbatim>\<open>random.random()\<close>
  returns, in the order drawn; a function that draws is given the stream from its first
  draw on. The closure \<^verbatim>\<open>subdivide\<close> mutates the list \<^verbatim>\<open>subdivisions\<close> and draws from
  the source: its state is the pair of the number of draws made and the list so far.
\<close>

function subdivide :: "(nat \<Rightarrow> real) \<Rightarrow> int \<Rightarrow> nat \<Rightarrow> nat \<times> int list \<Rightarrow> nat \<times> int list" where
  "subdivide rnd len depth (k, subdivisions) =
     (if 3 \<le> depth \<or> len < 4 then (k, subdivisions @ [len])
      else
        let major = py_int (fmul (float_of_int len) phi_inverse);
            minor = len - major
        in if rnd k < fl (6 / 10)
           then let s = subdivide rnd major (depth + 1) (Suc k, subdivisions)
                in subdivide rnd minor (depth + 1) s
           else (Suc k, subdivisions @ [major, minor]))"
  by pat_completeness auto
termination
  by (relation "measure (\<lambda>(rnd, len, depth, s). 3 - depth)") auto

text \<open>
  \<^verbatim>\<open>golden_ratio_subdivisions\<close> first computes \<^verbatim>\<open>major_part\<close> and \<^verbatim>\<open>minor_part\<close>, which it
  never reads, then runs the closure and sorts its leaves in descending order. The model
  returns the sorted leaves and the number of draws made.
\<close>

definition golden_ratio_subdivisions :: "(nat \<Rightarrow> real) \<Rightarrow> int \<Rightarrow> int list \<times> nat" where
  "golden_ratio_subdivisions rnd total_length =
     (let s = subdivide rnd total_length 0 (0, [])
      in (rev (sort (snd s)), fst s))"

section \<open>MusicTheory: melody\<close>

definition golden_durations :: "int list" where
  "golden_durations =
     [py_int (fmul (float_of_int 480) phi_inverse),
      480,
      py_int (fmul (float_of_int 480) phi),
      py_int (fmul (float_of_int 480) (fl (phi ^ 2)))]"

text \<open>
  \<^verbatim>\<open>octave_factor = math.sin(i * self.phi) * 2\<close> and
  \<^verbatim>\<open>octave_shift = int(octave_factor) * 12\<close>, at index \<open>i\<close>.
\<close>

definition octave_factor :: "nat \<Rightarrow> real" where
  "octave_factor i = fmul (fsin (fmul (float_of_int (int i)) phi)) (float_of_int 2)"

definition octave_shift :: "nat \<Rightarrow> int" where
  "octave_shift i = py_int (octave_factor i) * 12"

text \<open>The body of the loop of \<^verbatim>\<open>generate_golden_melody\<close> at index \<open>i\<close>, with \<open>r\<close> its draw.\<close>

definition melody_note :: "real \<Rightarrow> int list \<Rightarrow> int list \<Rightarrow> nat \<Rightarrow> py_error + note_event" where
  "melody_note r scale_notes fib_seq i =
     (let x = fmul (float_of_int (int i)) phi;
          phi_factor = py_fmod x (float_of_int 1)
      in py_bind (py_mod (int i) (int (length fib_seq))) (\<lambda>fib_index.
         py_bind (py_index fib_seq fib_index) (\<lambda>fib_value.
         py_bind (py_max fib_seq) (\<lambda>fib_max.
         py_bind (if fib_max = 0 then Inl ZeroDivisionError
                  else Inr (int_truediv fib_value fib_max)) (\<lambda>fib_factor.
         let random_factor = fmul r (fl (3 / 10));
             note_factor = fdiv (fadd (fadd phi_factor fib_factor) random_factor) (fl (23 / 10))
         in py_bind (py_mod (py_int (fmul note_factor (float_of_int (int (length scale_notes)))))
                            (int (length scale_notes))) (\<lambda>note_index.
            py_bind (py_index scale_notes note_index) (\<lambda>base_note.
            let final_note = max 21 (min 108 (base_note + octave_shift i))
            in py_bind (py_index golden_durations
                          (py_int (py_fmod x (float_of_int (int (length golden_durations))))))
                 (\<lambda>duration.
                 let velocity_base = 64;
                     velocity_variation =
                       py_int (fmul (float_of_int 32) (fsin (fmul x (float_of_int 2))));
                     velocity = max 32 (min 127 (velocity_base + velocity_variation))
                 in Inr (final_note, duration, velocity)))))))))"

fun melody_loop ::
  "(nat \<Rightarrow> real) \<Rightarrow> int list \<Rightarrow> int list \<Rightarrow> nat list \<Rightarrow> note_event list
     \<Rightarrow> py_error + note_event list" where
  "melody_loop rnd scale_notes fib_seq [] melody = Inr melody"
| "melody_loop rnd scale_notes fib_seq (i # rest) melody =
     py_bind (melody_note (rnd i) scale_notes fib_seq i)
       (\<lambda>n. melody_loop rnd scale_notes fib_seq rest (melody @ [n]))"

definition generate_golden_melody ::
  "(nat \<Rightarrow> real) \<Rightarrow> int list \<Rightarrow> int \<Rightarrow> int \<Rightarrow> py_error + note_event list" where
  "generate_golden_melody rnd scale_notes len root_note =
     (let fib_seq = fibonacci_sequence len
      in melody_loop rnd scale_notes fib_seq [0..<nat len] [])"


text \<open>
  What the loop body establishes for the note at index \<open>i\<close>: the pitch is some scale note
  moved by the octave shift and clipped, and pitch and velocity lie in their ranges.
\<close>

definition note_ok :: "int list \<Rightarrow> nat \<Rightarrow> note_event \<Rightarrow> bool" where
  "note_ok scale_notes i n \<longleftrightarrow>
     (\<exists>b\<in>set scale_notes. pitch n = max 21 (min 108 (b + octave_shift i)))
     \<and> 21 \<le> pitch n \<and> pitch n \<le> 108 \<and> 32 \<le> velocity_of n \<and> velocity_of n \<le> 127"

section \<open>MusicTheory: harmony\<close>

definition bass_of :: "note_event \<Rightarrow> note_event" where
  "bass_of n =
     (case n of (note, duration, velocity) \<Rightarrow>
        let interval = py_int (fmul phi (float_of_int 7)) mod 12;
            bass_note = max 21 (note - 12 - interval);
            bass_duration = duration * 2;
            bass_velocity = py_int (fmul (float_of_int velocity) (fl (7 / 10)))
        in (bass_note, bass_duration, bass_velocity))"

text \<open>
  The second loop keeps \<^verbatim>\<open>middle_voice\<close>, \<^verbatim>\<open>phi_step\<close> and \<^verbatim>\<open>current_pos\<close>. The index into
  \<^verbatim>\<open>intervals\<close> is 0 or 1 (lemma \<open>interval_index_range\<close> below), so the read is in range.
\<close>

definition middle_step ::
  "note_event list \<times> real \<times> real \<Rightarrow> nat \<times> note_event \<Rightarrow> note_event list \<times> real \<times> real" where
  "middle_step s e =
     (case s of (middle_voice, phi_step, current_pos) \<Rightarrow>
      case e of (i, note, duration, velocity) \<Rightarrow>
        if current_pos \<le> of_nat i then
          let intervals = [4, 7];
              interval = intervals ! nat (py_int (py_fmod (fmul (float_of_int (int i)) phi)
                                                   (float_of_int (int (length intervals)))));
              harmony_note = note + interval;
              middle_voice' =
                (if harmony_note \<le> 108
                 then middle_voice @
                        [(harmony_note, duration, py_int (fmul (float_of_int velocity) (fl (8 / 10))))]
                 else middle_voice)
          in (middle_voice', fmul phi_step phi_inverse, fadd current_pos phi_step)
        else s)"

definition generate_golden_harmony :: "note_event list \<Rightarrow> int list \<Rightarrow> note_event list list" where
  "generate_golden_harmony melody scale_notes =
     (let bass_line = map bass_of melody;
          middle_voice = fst (foldl middle_step ([], phi, 0) (enumerate 0 melody))
      in [bass_line, middle_voice])"

section \<open>MusicTheory: rhythm\<close>

text \<open>\<^verbatim>\<open>int(self.phi * 2)\<close>, the accent period; it is 3 (lemma \<open>accent_period_eq\<close> below).\<close>

definition accent_period :: int where
  "accent_period = py_int (fmul phi (float_of_int 2))"

text \<open>The note appended for input note \<open>i\<close> when the pattern has a beat there.\<close>

definition rhythm_note :: "nat \<Rightarrow> note_event \<Rightarrow> note_event" where
  "rhythm_note i n =
     (case n of (note, duration, velocity) \<Rightarrow>
        let phi_rhythm_factor =
              fadd 1 (fmul (fl (3 / 10)) (fsin (fmul (float_of_int (int i)) phi)));
            adjusted_duration = py_int (fmul (float_of_int duration) phi_rhythm_factor);
            velocity' =
              (if int i mod accent_period = 0
               then min 127 (py_int (fmul (float_of_int velocity) (fl (12 / 10))))
               else velocity)
        in (note, adjusted_duration, velocity'))"

text \<open>The body of the loop of \<^verbatim>\<open>apply_golden_rhythm\<close>.\<close>

definition rhythm_step :: "int list \<Rightarrow> note_event list \<Rightarrow> nat \<times> note_event \<Rightarrow> note_event list" where
  "rhythm_step pattern rhythmic_melody e =
     (case e of (i, note, duration, velocity) \<Rightarrow>
        let pattern_index = i mod length pattern;
            rhythm_factor = pattern ! pattern_index
        in if rhythm_factor = 0 then
             (if rhythmic_melody \<noteq> [] then
                (case last rhythmic_melody of (prev_note, prev_duration, prev_velocity) \<Rightarrow>
                   butlast rhythmic_melody @ [(prev_note, prev_duration + duration div 2, prev_velocity)])
              else rhythmic_melody)
           else rhythmic_melody @ [rhythm_note i (note, duration, velocity)])"

text \<open>The test of the loop's branch: the pattern has a beat at the index of \<open>e\<close>.\<close>

definition on_beat :: "int list \<Rightarrow> nat \<times> note_event \<Rightarrow> bool" where
  "on_beat pattern e \<longleftrightarrow> pattern ! (fst e mod length pattern) \<noteq> 0"

text \<open>The pattern the function ends up using: the named one, or \<^verbatim>\<open>straight\<close>.\<close>

definition pattern_for :: "string \<Rightarrow> int list" where
  "pattern_for pattern_name =
     (let pattern_name' = (if pattern_name \<notin> dom rhythm_patterns then ''straight'' else pattern_name)
      in the (rhythm_patterns pattern_name'))"

definition apply_golden_rhythm :: "note_event list \<Rightarrow> string \<Rightarrow> note_event list" where
  "apply_golden_rhythm melody pattern_name =
     foldl (rhythm_step (pattern_for pattern_name)) [] (enumerate 0 melody)"

section \<open>MusicTheory: analysis\<close>

definition pitch_intervals :: "int list \<Rightarrow> int list" where
  "pitch_intervals notes = map (\<lambda>i. \<bar>notes ! i - notes ! (i - 1)\<bar>) [1..<length notes]"

definition golden_intervals :: "int list" where
  "golden_intervals = map (\<lambda>i. py_int (fmul phi (float_of_int i))) [1..7]"

definition duration_ratios :: "int list \<Rightarrow> real list" where
  "duration_ratios durations =
     map (\<lambda>i. int_truediv (durations ! i) (durations ! (i - 1)))
       (filter (\<lambda>i. durations ! (i - 1) \<noteq> 0) [1..<length durations])"

definition near_phi :: "real \<Rightarrow> bool" where
  "near_phi ratio \<longleftrightarrow>
     \<bar>fsub ratio phi\<bar> < fl (1 / 10) \<or> \<bar>fsub ratio phi_inverse\<bar> < fl (1 / 10)"

definition analyze_golden_ratios :: "note_event list \<Rightarrow> (string \<rightharpoonup> pyval)" where
  "analyze_golden_ratios melody =
     (if melody = [] then Map.empty
      else
        let notes = map pitch melody;
            durations = map duration_of melody;
            velocities = map velocity_of melody;
            analysis =
              [''total_notes'' \<mapsto> IntV (int (length melody)),
               ''note_range'' \<mapsto> IntV (list_max notes - list_min notes),
               ''avg_duration'' \<mapsto> FloatV (int_truediv (sum_list durations) (int (length durations))),
               ''avg_velocity'' \<mapsto> FloatV (int_truediv (sum_list velocities) (int (length velocities)))];
            intervals = pitch_intervals notes;
            analysis1 =
              (if intervals \<noteq> [] then
                 let golden_ratio_count = int (length (filter (\<lambda>v. v \<in> set golden_intervals) intervals))
                 in analysis
                     (''avg_interval'' \<mapsto> FloatV (int_truediv (sum_list intervals) (int (length intervals))),
                      ''max_interval'' \<mapsto> IntV (list_max intervals),
                      ''golden_ratio_percentage'' \<mapsto>
                         FloatV (fmul (int_truediv golden_ratio_count (int (length intervals)))
                                   (float_of_int 100)))
               else analysis);
            ratios = duration_ratios durations
        in if ratios \<noteq> [] then
             let phi_ratios = int (length (filter near_phi ratios))
             in analysis1
                 (''phi_duration_percentage'' \<mapsto>
                    FloatV (fmul (int_truediv phi_ratios (int (length ratios))) (float_of_int 100)))
           else analysis1)"

text \<open>
  The descriptive texts of \<^verbatim>\<open>_get_scale_characteristic\<close> are Chinese prose; the text for
  a scale is stood for by the scale's name after an ASCII tag, the default text by the
  tag alone.
\<close>

definition get_scale_characteristic :: "string \<Rightarrow> string" where
  "get_scale_characteristic scale_name =
     (if scale_name \<in> dom scales then ''characteristic of '' @ scale_name
      else ''characteristic default'')"

definition get_scale_info :: "string \<Rightarrow> pyval" where
  "get_scale_info scale_name =
     (case scales scale_name of
        None \<Rightarrow> DictV []
      | Some scale \<Rightarrow>
          DictV [(''name'', StrV scale_name),
                 (''intervals'', ListV scale),
                 (''note_count'', IntV (int (length scale))),
                 (''characteristic'', StrV (get_scale_characteristic scale_name))])"


section \<open>AdvancedMidiGenerator: the composition\<close>

record style_template =
  t_scales :: "string list"
  t_progressions :: "string list"
  t_tempo_range :: "int \<times> int"
  t_instruments :: "int list"
  t_dynamics :: "string list"
  t_rhythm :: string

definition classical_template :: style_template where
  "classical_template =
     \<lparr>t_scales = [''major'', ''minor'', ''harmonic_minor''],
      t_progressions = [''classical'', ''circle_of_fifths''],
      t_tempo_range = (60, 120),
      t_instruments = [1, 41, 42, 43, 73],
      t_dynamics = [''p'', ''mp'', ''mf'', ''f''],
      t_rhythm = ''straight''\<rparr>"

definition style_templates :: "string \<rightharpoonup> style_template" where
  "style_templates = map_of
    [(''classical'', classical_template),
     (''jazz'',
      \<lparr>t_scales = [''major'', ''minor'', ''dorian'', ''mixolydian''],
       t_progressions = [''jazz_ii_v_i'', ''modal_jazz''],
       t_tempo_range = (80, 160),
       t_instruments = [1, 25, 33, 65, 57],
       t_dynamics = [''mp'', ''mf'', ''f''],
       t_rhythm = ''swing''\<rparr>),
     (''blues'',
      \<lparr>t_scales = [''blues'', ''pentatonic_minor''],
       t_progressions = [''blues_12bar''],
       t_tempo_range = (70, 140),
       t_instruments = [25, 33, 65, 57],
       t_dynamics = [''mf'', ''f'', ''ff''],
       t_rhythm = ''swing''\<rparr>),
     (''pop'',
      \<lparr>t_scales = [''major'', ''minor'', ''pentatonic_major''],
       t_progressions = [''pop'', ''folk''],
       t_tempo_range = (90, 140),
       t_instruments = [1, 25, 33, 81],
       t_dynamics = [''mp'', ''mf'', ''f''],
       t_rhythm = ''straight''\<rparr>),
     (''ambient'',
      \<lparr>t_scales = [''major'', ''lydian'', ''whole_tone''],
       t_progressions = [''modal_jazz''],
       t_tempo_range = (60, 90),
       t_instruments = [89, 90, 49, 92],
       t_dynamics = [''pp'', ''p'', ''mp''],
       t_rhythm = ''straight''\<rparr>),
     (''world'',
      \<lparr>t_scales = [''pentatonic_major'', ''japanese'', ''arabic'', ''gypsy''],
       t_progressions = [''modal_jazz'', ''folk''],
       t_tempo_range = (80, 120),
       t_instruments = [76, 73, 49, 33],
       t_dynamics = [''p'', ''mp'', ''mf''],
       t_rhythm = ''syncopated''\<rparr>)]"

text \<open>
  The first two statements of \<^verbatim>\<open>generate_complete_composition\<close>:
  \<^verbatim>\<open>notes_per_second = tempo_bpm / 60 * 2\<close> and
  \<^verbatim>\<open>total_notes = int(duration_seconds * notes_per_second)\<close>.
\<close>

definition notes_per_second :: "int \<Rightarrow> real" where
  "notes_per_second tempo_bpm = fmul (int_truediv tempo_bpm 60) (float_of_int 2)"

definition total_notes :: "int \<Rightarrow> int \<Rightarrow> int" where
  "total_notes duration_seconds tempo_bpm =
     py_int (fmul (float_of_int duration_seconds) (notes_per_second tempo_bpm))"

text \<open>
  The result is the melody and the harmony parts handed to \<^verbatim>\<open>create_advanced_midi\<close>
  (which only serialises them through the external MIDI library) and the analysis
  dictionary. An unknown scale name makes \<^verbatim>\<open>self.music_theory.scales[scale_name]\<close> raise.
\<close>

definition generate_complete_composition ::
  "(nat \<Rightarrow> real) \<Rightarrow> string \<Rightarrow> int \<Rightarrow> int \<Rightarrow> string \<Rightarrow> int
     \<Rightarrow> py_error + (note_event list \<times> note_event list list \<times> (string \<rightharpoonup> pyval))" where
  "generate_complete_composition rnd style duration_seconds tempo_bpm scale_name root_note =
     (let n = total_notes duration_seconds tempo_bpm;
          sp = golden_ratio_subdivisions rnd n;
          structure_points = fst sp;
          drawn = snd sp
      in case scales scale_name of
           None \<Rightarrow> Inl KeyError
         | Some scale \<Rightarrow>
             let scale_notes = map (\<lambda>interval. root_note + interval) scale
             in py_bind (generate_golden_melody (\<lambda>i. rnd (drawn + i)) scale_notes n root_note)
                  (\<lambda>melody0.
                   let template = (case style_templates style of
                                     Some t \<Rightarrow> t | None \<Rightarrow> classical_template);
                       melody = apply_golden_rhythm melody0 (t_rhythm template);
                       harmony_parts = generate_golden_harmony melody scale_notes;
                       analysis = analyze_golden_ratios melody;
                       analysis' = analysis
                         (''style'' \<mapsto> StrV style,
                          ''scale'' \<mapsto> StrV scale_name,
                          ''root_note'' \<mapsto> StrV (get_note_name root_note),
                          ''tempo'' \<mapsto> IntV tempo_bpm,
                          ''duration'' \<mapsto> IntV duration_seconds,
                          ''structure_points'' \<mapsto> ListV structure_points,
                          ''scale_info'' \<mapsto> get_scale_info scale_name)
                   in Inr (melody, harmony_parts, analysis')))"

section \<open>Rounding to a float: order and exact values\<close>

lemma rne_of_int: "rne (of_int n) = n"
  by (simp add: rne_def)

lemma rne_bounds: "\<lfloor>x\<rfloor> \<le> rne x \<and> rne x \<le> \<lfloor>x\<rfloor> + 1"
  by (simp add: rne_def Let_def)

lemma rne_mono: assumes "x \<le> y" shows "rne x \<le> rne y"
proof (cases "\<lfloor>x\<rfloor> = \<lfloor>y\<rfloor>")
  case True
  with assms show ?thesis by (auto simp: rne_def Let_def)
next
  case False
  with assms have "\<lfloor>x\<rfloor> + 1 \<le> \<lfloor>y\<rfloor>" using floor_mono[OF assms] by linarith
  with rne_bounds[of x] rne_bounds[of y] show ?thesis by linarith
qed

lemma ulp_exp_bounds:
  assumes "x \<noteq> 0"
  shows "2 ^ 52 \<le> \<bar>x\<bar> / 2 powi ulp_exp x" "\<bar>x\<bar> / 2 powi ulp_exp x < 2 ^ 53"
proof -
  define k where "k = \<lfloor>log 2 \<bar>x\<bar>\<rfloor>"
  have ax: "0 < \<bar>x\<bar>" using assms by simp
  have "\<lfloor>log 2 \<bar>x\<bar>\<rfloor> = k" by (simp add: k_def)
  then have b: "2 powr k \<le> \<bar>x\<bar>" "\<bar>x\<bar> < 2 powr (k + 1)"
    using floor_log_eq_powr_iff[OF ax, of 2 k] by auto
  have p: "(2::real) powr (of_int j) = 2 powi j" for j
    by (simp add: powr_real_of_int' power_int_def)
  have b1: "2 powi k \<le> \<bar>x\<bar>" using b(1) p[of k] by simp
  have b2: "\<bar>x\<bar> < 2 powi (k + 1)" using b(2) p[of "k+1"] by simp
  have u: "ulp_exp x = k - 52" by (simp add: ulp_exp_def binade_def k_def)
  have pos: "(0::real) < 2 powi (k - 52)" by simp
  have e1: "(2::real) powi k = 2 ^ 52 * 2 powi (k - 52)"
    by (simp add: power_int_diff)
  have e2: "(2::real) powi (k + 1) = 2 ^ 53 * 2 powi (k - 52)"
    by (simp add: power_int_diff power_int_add)
  show "2 ^ 52 \<le> \<bar>x\<bar> / 2 powi ulp_exp x"
    unfolding u using b1 e1 pos by (simp add: pos_le_divide_eq)
  show "\<bar>x\<bar> / 2 powi ulp_exp x < 2 ^ 53"
    unfolding u using b2 e2 pos by (simp add: pos_divide_less_eq)
qed



lemma ulp_exp_binade: "ulp_exp x = binade x - 52"
  by (simp add: ulp_exp_def)

lemma pow2_split: "(2::real) powi k = 2 ^ 52 * 2 powi (k - 52)"
  by (simp add: power_int_diff)

lemma pow2_split': "(2::real) powi (k + 1) = 2 ^ 53 * 2 powi (k - 52)"
  by (simp add: power_int_diff power_int_add)

lemma fl_pos_bounds:
  assumes "0 < x"
  shows "2 powi binade x \<le> fl x" "fl x \<le> 2 powi (binade x + 1)"
proof -
  let ?u = "(2::real) powi ulp_exp x"
  have x0: "x \<noteq> 0" using assms by simp
  have upos: "0 < ?u" by simp
  have q: "2 ^ 52 \<le> x / ?u" "x / ?u < 2 ^ 53"
    using ulp_exp_bounds[OF x0] assms by simp_all
  have "rne (of_int (2 ^ 52)) \<le> rne (x / ?u)" by (rule rne_mono) (use q in simp)
  then have r1: "2 ^ 52 \<le> rne (x / ?u)" by (simp only: rne_of_int)
  have "rne (x / ?u) \<le> rne (of_int (2 ^ 53))" by (rule rne_mono) (use q in simp)
  then have r2: "rne (x / ?u) \<le> 2 ^ 53" by (simp only: rne_of_int)
  have f: "fl x = of_int (rne (x / ?u)) * ?u" using x0 by (simp add: fl_def)
  have "(2::real) ^ 52 * ?u \<le> of_int (rne (x / ?u)) * ?u"
    using r1 upos by (intro mult_right_mono) (simp_all add: numeral_power_le_of_int_cancel_iff)
  then show "2 powi binade x \<le> fl x"
    unfolding f by (simp add: pow2_split[of "binade x"] ulp_exp_binade)
  have "of_int (rne (x / ?u)) * ?u \<le> (2::real) ^ 53 * ?u"
    using r2 upos by (intro mult_right_mono) (simp_all add: of_int_le_numeral_power_cancel_iff)
  then show "fl x \<le> 2 powi (binade x + 1)"
    unfolding f by (simp add: pow2_split'[of "binade x"] ulp_exp_binade)
qed

lemma fl_neg_bounds:
  assumes "x < 0"
  shows "- (2 powi (binade x + 1)) \<le> fl x" "fl x \<le> - (2 powi binade x)"
proof -
  let ?u = "(2::real) powi ulp_exp x"
  have x0: "x \<noteq> 0" using assms by simp
  have upos: "0 < ?u" by simp
  have "2 ^ 52 \<le> \<bar>x\<bar> / ?u" "\<bar>x\<bar> / ?u < 2 ^ 53"
    using ulp_exp_bounds[OF x0] by simp_all
  then have q: "x / ?u \<le> - (2 ^ 52)" "- (2 ^ 53) < x / ?u"
    using assms by (simp_all add: abs_if)
  have "rne (x / ?u) \<le> rne (of_int (- (2 ^ 52)))" by (rule rne_mono) (use q in simp)
  then have r1: "rne (x / ?u) \<le> - (2 ^ 52)" by (simp only: rne_of_int)
  have "rne (of_int (- (2 ^ 53))) \<le> rne (x / ?u)" by (rule rne_mono) (use q in simp)
  then have r2: "- (2 ^ 53) \<le> rne (x / ?u)" by (simp only: rne_of_int)
  have f: "fl x = of_int (rne (x / ?u)) * ?u" using x0 by (simp add: fl_def)
  have "of_int (rne (x / ?u)) \<le> (of_int (- (2 ^ 52)) :: real)" using r1 by (simp only: of_int_le_iff)
  then have "of_int (rne (x / ?u)) * ?u \<le> (of_int (- (2 ^ 52)) :: real) * ?u"
    using upos by (intro mult_right_mono) simp_all
  then show "fl x \<le> - (2 powi binade x)"
    unfolding f by (simp add: pow2_split[of "binade x"] ulp_exp_binade)
  have "(of_int (- (2 ^ 53)) :: real) \<le> of_int (rne (x / ?u))" using r2 by (simp only: of_int_le_iff)
  then have "(of_int (- (2 ^ 53)) :: real) * ?u \<le> of_int (rne (x / ?u)) * ?u"
    using upos by (intro mult_right_mono) simp_all
  then show "- (2 powi (binade x + 1)) \<le> fl x"
    unfolding f by (simp add: pow2_split'[of "binade x"] ulp_exp_binade)
qed

lemma fl_zero: "fl 0 = 0"
  by (simp add: fl_def)

lemma fl_pos: "0 < x \<Longrightarrow> 0 < fl x"
  using fl_pos_bounds(1)[of x] by (smt (verit) zero_less_power_int)

lemma fl_neg: "x < 0 \<Longrightarrow> fl x < 0"
  using fl_neg_bounds(2)[of x] by (smt (verit) zero_less_power_int)

lemma fl_nonneg: "0 \<le> x \<Longrightarrow> 0 \<le> fl x"
  using fl_pos[of x] fl_zero by (cases "x = 0") auto

lemma binade_mono: "0 < x \<Longrightarrow> x \<le> y \<Longrightarrow> binade x \<le> binade y"
  unfolding binade_def by (intro floor_mono) simp

lemma binade_mono_neg: "y < 0 \<Longrightarrow> x \<le> y \<Longrightarrow> binade y \<le> binade x"
  unfolding binade_def by (intro floor_mono) simp

lemma fl_same_binade:
  assumes "x \<noteq> 0" "y \<noteq> 0" "binade x = binade y" "x \<le> y"
  shows "fl x \<le> fl y"
proof -
  have u: "ulp_exp x = ulp_exp y" using assms(3) by (simp add: ulp_exp_binade)
  have "x / 2 powi ulp_exp y \<le> y / 2 powi ulp_exp y"
    using assms(4) by (simp add: divide_right_mono)
  then have "rne (x / 2 powi ulp_exp y) \<le> rne (y / 2 powi ulp_exp y)" by (rule rne_mono)
  then have "(of_int (rne (x / 2 powi ulp_exp y)) :: real) \<le> of_int (rne (y / 2 powi ulp_exp y))"
    by simp
  then have "of_int (rne (x / 2 powi ulp_exp y)) * 2 powi ulp_exp y
      \<le> (of_int (rne (y / 2 powi ulp_exp y)) :: real) * 2 powi ulp_exp y"
    by (intro mult_right_mono) simp_all
  then show ?thesis using assms(1,2) by (simp add: fl_def u)
qed

lemma pow2_mono: "i \<le> j \<Longrightarrow> (2::real) powi i \<le> 2 powi j"
  by (simp add: power_int_increasing)

lemma fl_mono:
  assumes "x \<le> y"
  shows "fl x \<le> fl y"
proof -
  consider "x = 0" | "y = 0" "x \<noteq> 0" | "x < 0" "0 < y" | "0 < x" | "y < 0" "x \<noteq> 0" "y \<noteq> 0"
    using assms by linarith
  then show ?thesis
  proof cases
    case 1
    then show ?thesis using assms fl_nonneg[of y] by (simp add: fl_zero)
  next
    case 2
    then have "x < 0" using assms by simp
    then show ?thesis using fl_neg[of x] 2 by (simp add: fl_zero)
  next
    case 3
    then show ?thesis using fl_neg[of x] fl_pos[of y] by simp
  next
    case 4
    then have y: "0 < y" using assms by simp
    have le: "binade x \<le> binade y" using binade_mono[OF 4 assms] .
    show ?thesis
    proof (cases "binade x = binade y")
      case True
      then show ?thesis using fl_same_binade[of x y] 4 y assms by simp
    next
      case False
      then have "binade x + 1 \<le> binade y" using le by simp
      then have "(2::real) powi (binade x + 1) \<le> 2 powi binade y" by (rule pow2_mono)
      then show ?thesis using fl_pos_bounds(2)[OF 4] fl_pos_bounds(1)[OF y] by linarith
    qed
  next
    case 5
    then have x: "x < 0" using assms by simp
    have le: "binade y \<le> binade x" using binade_mono_neg[OF 5(1) assms] .
    show ?thesis
    proof (cases "binade x = binade y")
      case True
      then show ?thesis using fl_same_binade[of x y] 5 assms by simp
    next
      case False
      then have "binade y + 1 \<le> binade x" using le by simp
      then have "(2::real) powi (binade y + 1) \<le> 2 powi binade x" by (rule pow2_mono)
      then show ?thesis using fl_neg_bounds(2)[OF x] fl_neg_bounds(1)[OF 5(1)] by linarith
    qed
  qed
qed


lemma fl_dyadic:
  assumes "\<bar>m\<bar> < 2 ^ 53"
  shows "fl (of_int m * 2 powi e) = of_int m * 2 powi e"
proof (cases "m = 0")
  case True
  then show ?thesis by (simp add: fl_zero)
next
  case False
  define x :: real where "x = of_int m * 2 powi e"
  define j where "j = ulp_exp x"
  have x0: "x \<noteq> 0" using False by (simp add: x_def)
  have q: "x / 2 powi j = of_int m * 2 powi (e - j)"
    by (simp add: x_def power_int_diff)
  have ge: "2 ^ 52 \<le> \<bar>x\<bar> / 2 powi j"
    using ulp_exp_bounds(1)[OF x0] by (simp add: j_def)
  have "j \<le> e"
  proof (rule ccontr)
    assume "\<not> j \<le> e"
    then have "e - j \<le> - 1" by simp
    then have "(2::real) powi (e - j) \<le> 2 powi (- 1)" by (rule pow2_mono)
    then have h: "(2::real) powi (e - j) \<le> 1 / 2" by (simp add: power_int_minus)
    have "\<bar>x / 2 powi j\<bar> = \<bar>of_int m * 2 powi (e - j)\<bar>"
      using q by simp
    then have "\<bar>x\<bar> / 2 powi j = \<bar>of_int m\<bar> * 2 powi (e - j)"
      by (simp add: abs_mult)
    also have "\<dots> \<le> \<bar>of_int m\<bar> * (1 / 2)"
      using h by (intro mult_left_mono) simp_all
    also have "\<dots> < 2 ^ 53 * (1 / 2)"
    proof -
      have "(of_int \<bar>m\<bar> :: real) < of_int (2 ^ 53)" using assms by (simp only: of_int_less_iff)
      then show ?thesis by simp
    qed
    finally show False using ge by simp
  qed
  then have "(2::real) powi (e - j) = of_int (2 ^ nat (e - j))"
    by (simp add: power_int_def)
  then have "x / 2 powi j = of_int (m * 2 ^ nat (e - j))"
    using q by simp
  then have "rne (x / 2 powi j) = m * 2 ^ nat (e - j)"
    by (simp only: rne_of_int)
  then have "fl x = of_int (m * 2 ^ nat (e - j)) * 2 powi j"
    using x0 by (simp add: fl_def j_def)
  also have "\<dots> = x / 2 powi j * 2 powi j"
    using \<open>x / 2 powi j = of_int (m * 2 ^ nat (e - j))\<close> by simp
  also have "\<dots> = x" by simp
  finally show ?thesis by (simp add: x_def)
qed

lemma fl_of_int: "\<bar>m\<bar> < 2 ^ 53 \<Longrightarrow> fl (of_int m) = of_int m"
  using fl_dyadic[of m 0] by simp

section \<open>The constants of the generator\<close>

lemma fl_numerals:
  "fl 1 = 1" "fl 2 = 2" "fl 4 = 4" "fl 5 = 5" "fl 7 = 7" "fl 10 = 10" "fl 40 = 40" "fl 100 = 100"
  using fl_of_int[of 1] fl_of_int[of 2] fl_of_int[of 4] fl_of_int[of 5] fl_of_int[of 7]
    fl_of_int[of 10] fl_of_int[of 40] fl_of_int[of 100]
  by simp_all

lemma fl_fractions:
  "fl (143 / 64) = 143 / 64" "fl (9 / 4) = 9 / 4" "fl (207 / 64) = 207 / 64" "fl (13 / 4) = 13 / 4"
  "fl (207 / 128) = 207 / 128" "fl (13 / 8) = 13 / 8" "fl (1 / 2) = 1 / 2" "fl (5 / 8) = 5 / 8"
  using fl_dyadic[of 143 "- 6"] fl_dyadic[of 9 "- 2"] fl_dyadic[of 207 "- 6"] fl_dyadic[of 13 "- 2"]
    fl_dyadic[of 207 "- 7"] fl_dyadic[of 13 "- 3"] fl_dyadic[of 1 "- 1"] fl_dyadic[of 5 "- 3"]
  by (simp_all add: power_int_minus)

lemma float_of_int_numerals:
  "float_of_int 1 = 1" "float_of_int 2 = 2" "float_of_int 4 = 4" "float_of_int 7 = 7"
  "float_of_int 10 = 10" "float_of_int 100 = 100"
  by (simp_all add: float_of_int_def fl_numerals)

lemma float_of_int_nonneg: "0 \<le> i \<Longrightarrow> 0 \<le> float_of_int i"
  by (simp add: float_of_int_def fl_nonneg)

lemma fmul_nonneg: "0 \<le> x \<Longrightarrow> 0 \<le> y \<Longrightarrow> 0 \<le> fmul x y"
  by (simp add: fmul_def fl_nonneg)

lemma sqrt5_bounds: "143 / 64 \<le> sqrt 5" "sqrt 5 \<le> 9 / 4"
proof -
  show "143 / 64 \<le> sqrt 5" by (rule real_le_rsqrt) (simp add: power2_eq_square)
  show "sqrt 5 \<le> 9 / 4" by (rule real_le_lsqrt) (simp_all add: power2_eq_square)
qed

lemma phi_bounds: "207 / 128 \<le> phi" "phi \<le> 13 / 8"
proof -
  have s: "143 / 64 \<le> fsqrt 5" "fsqrt 5 \<le> 9 / 4"
    using fl_mono[OF sqrt5_bounds(1)] fl_mono[OF sqrt5_bounds(2)]
    by (simp_all add: fsqrt_def fl_fractions)
  have "207 / 64 \<le> 1 + fsqrt 5" "1 + fsqrt 5 \<le> 13 / 4" using s by simp_all
  then have a: "207 / 64 \<le> fadd 1 (fsqrt 5)" "fadd 1 (fsqrt 5) \<le> 13 / 4"
    using fl_mono[of "207 / 64" "1 + fsqrt 5"] fl_mono[of "1 + fsqrt 5" "13 / 4"]
    by (simp_all add: fadd_def fl_fractions)
  have "207 / 128 \<le> fadd 1 (fsqrt 5) / 2" "fadd 1 (fsqrt 5) / 2 \<le> 13 / 8" using a by simp_all
  then show "207 / 128 \<le> phi" "phi \<le> 13 / 8"
    using fl_mono[of "207 / 128" "fadd 1 (fsqrt 5) / 2"] fl_mono[of "fadd 1 (fsqrt 5) / 2" "13 / 8"]
    by (simp_all add: phi_def fdiv_def fl_fractions)
qed

lemma phi_pos: "0 < phi"
  using phi_bounds(1) by simp

lemma phi_inverse_bounds: "1 / 2 \<le> phi_inverse" "phi_inverse \<le> 5 / 8"
proof -
  have "1 / 2 \<le> 1 / phi"
    using phi_bounds(2) phi_pos by (simp add: field_simps)
  then show "1 / 2 \<le> phi_inverse"
    using fl_mono[of "1 / 2" "1 / phi"] by (simp add: phi_inverse_def fdiv_def fl_fractions)
  have "1 / phi \<le> 5 / 8"
    using phi_bounds(1) phi_pos by (simp add: field_simps)
  then show "phi_inverse \<le> 5 / 8"
    using fl_mono[of "1 / phi" "5 / 8"] by (simp add: phi_inverse_def fdiv_def fl_fractions)
qed

lemma accent_period_eq: "accent_period = 3"
proof -
  have "207 / 64 \<le> phi * 2" "phi * 2 \<le> 13 / 4" using phi_bounds by simp_all
  then have "207 / 64 \<le> fl (phi * 2)" "fl (phi * 2) \<le> 13 / 4"
    using fl_mono[of "207 / 64" "phi * 2"] fl_mono[of "phi * 2" "13 / 4"]
    by (simp_all add: fl_fractions)
  then have "\<lfloor>fl (phi * 2)\<rfloor> = 3" "0 \<le> fl (phi * 2)" by linarith+
  then show ?thesis
    by (simp add: accent_period_def fmul_def float_of_int_numerals py_int_def)
qed

lemma index_phi_nonneg: "0 \<le> fmul (float_of_int (int i)) phi"
  using phi_pos by (intro fmul_nonneg float_of_int_nonneg) simp_all

lemma py_fmod_range:
  assumes "0 \<le> x" "0 < m"
  shows "0 \<le> py_fmod x m" "py_fmod x m < m"
proof -
  have f: "of_int \<lfloor>x / m\<rfloor> \<le> x / m" "x / m < of_int \<lfloor>x / m\<rfloor> + 1" by linarith+
  have "m * of_int \<lfloor>x / m\<rfloor> \<le> m * (x / m)"
    using f(1) assms(2) by (intro mult_left_mono) simp_all
  then have a: "m * of_int \<lfloor>x / m\<rfloor> \<le> x" using assms(2) by simp
  have "m * (x / m) < m * (of_int \<lfloor>x / m\<rfloor> + 1)"
    using f(2) assms(2) by (intro mult_strict_left_mono) simp_all
  then have b: "x < m * of_int \<lfloor>x / m\<rfloor> + m" using assms(2) by (simp add: algebra_simps)
  show "0 \<le> py_fmod x m" using a assms(1) by (simp add: py_fmod_def)
  show "py_fmod x m < m" using b assms(1) by (simp add: py_fmod_def)
qed

lemma py_int_range:
  assumes "0 \<le> x" "x < of_int n"
  shows "0 \<le> py_int x" "py_int x < n"
  using assms by (simp_all add: py_int_def floor_less_iff)

lemma interval_index_range:
  "py_int (py_fmod (fmul (float_of_int (int i)) phi) (float_of_int (int (length [4::int, 7])))) \<in> {0, 1}"
proof -
  let ?x = "fmul (float_of_int (int i)) phi"
  have "0 \<le> py_fmod ?x 2" "py_fmod ?x 2 < 2"
    using py_fmod_range[OF index_phi_nonneg, of 2 i] by simp_all
  then have "0 \<le> py_int (py_fmod ?x 2)" "py_int (py_fmod ?x 2) < 2"
    using py_int_range[of "py_fmod ?x 2" 2] by simp_all
  then show ?thesis by (auto simp: float_of_int_numerals)
qed

section \<open>Bounds on pi\<close>

lemma pi_ge_three: "3 \<le> pi"
proof -
  have "sin (pi / 6) \<le> pi / 6" by (rule sin_x_le_x) simp
  then show ?thesis by (simp add: sin_30)
qed

lemma cos_8_5_neg: "cos (8 / 5 :: real) < 0"
proof -
  obtain t where t: "cos (8 / 5 :: real)
      = (\<Sum>m<8. cos_coeff m * (8 / 5) ^ m) + (cos (t + 1 / 2 * real (8::nat) * pi) / fact 8) * (8 / 5) ^ 8"
    using Maclaurin_cos_expansion2[of "8 / 5" 8] by auto
  have c: "cos_coeff (Suc 0) = 0" "cos_coeff (Suc (Suc 0)) = - 1 / 2"
    "cos_coeff (Suc (Suc (Suc 0))) = 0" "cos_coeff (Suc (Suc (Suc (Suc 0)))) = 1 / 24"
    "cos_coeff (Suc (Suc (Suc (Suc (Suc 0))))) = 0"
    "cos_coeff (Suc (Suc (Suc (Suc (Suc (Suc 0)))))) = - 1 / 720"
    "cos_coeff (Suc (Suc (Suc (Suc (Suc (Suc (Suc 0))))))) = 0"
    by (simp_all add: cos_coeff_Suc sin_coeff_Suc)
  have s: "(\<Sum>m<8. cos_coeff m * (8 / 5 :: real) ^ m) = 1 - (8 / 5)\<^sup>2 / 2 + (8 / 5) ^ 4 / 24 - (8 / 5) ^ 6 / 720"
    by (simp add: numeral_eq_Suc c)
  have "cos (t + 1 / 2 * real (8::nat) * pi) \<le> 1" by (rule cos_le_one)
  then have "cos (t + 1 / 2 * real (8::nat) * pi) / fact 8 * (8 / 5) ^ 8 \<le> 1 / fact 8 * (8 / 5 :: real) ^ 8"
    by (intro mult_right_mono divide_right_mono) simp_all
  then have "cos (8 / 5 :: real) \<le> 1 - (8 / 5)\<^sup>2 / 2 + (8 / 5) ^ 4 / 24 - (8 / 5) ^ 6 / 720 + 1 / fact 8 * (8 / 5) ^ 8"
    using t s by linarith
  also have "\<dots> < 0" by (simp add: eval_nat_numeral)
  finally show ?thesis .
qed

lemma pi_less_16_5: "pi < 16 / 5"
proof (rule ccontr)
  assume "\<not> pi < 16 / 5"
  then have "8 / 5 \<le> pi / 2" by simp
  then have "0 \<le> cos (8 / 5 :: real)" by (intro cos_ge_zero) simp_all
  then show False using cos_8_5_neg by simp
qed

section \<open>The rhythm loop\<close>

lemma pattern_for_cases:
  "pattern_for name \<in> {[1, 0, 1, 0, 1, 0, 1, 0], [1, 0, 0, 1, 1, 0, 0, 1], [1, 0, 1, 1, 0, 1, 0, 1],
                        [1, 0, 1, 0, 0, 1, 1, 0], [1, 0, 0, 1, 0, 1, 0, 0], [1, 0, 0, 1, 0, 0]}"
  by (simp add: pattern_for_def rhythm_patterns_def dom_def)

lemma pattern_for_unknown:
  "name \<notin> dom rhythm_patterns \<Longrightarrow> pattern_for name = [1, 0, 1, 0, 1, 0, 1, 0]"
  by (simp add: pattern_for_def rhythm_patterns_def)

lemma pattern_for_straight: "pattern_for ''straight'' = [1, 0, 1, 0, 1, 0, 1, 0]"
  by (simp add: pattern_for_def rhythm_patterns_def dom_def)

lemma pattern_for_nonempty: "pattern_for name \<noteq> []"
  using pattern_for_cases[of name] by auto

lemma pattern_for_binary: "x \<in> set (pattern_for name) \<Longrightarrow> x = 0 \<or> x = 1"
  using pattern_for_cases[of name] by auto

lemma pattern_for_nth: "pattern_for name ! (i mod length (pattern_for name)) \<in> {0, 1}"
proof -
  have "i mod length (pattern_for name) < length (pattern_for name)"
    using pattern_for_nonempty[of name] by simp
  then have "pattern_for name ! (i mod length (pattern_for name)) \<in> set (pattern_for name)"
    by (rule nth_mem)
  then show ?thesis using pattern_for_binary by blast
qed

lemma pitch_rhythm_note: "pitch (rhythm_note i n) = pitch n"
  by (cases n) (simp add: rhythm_note_def pitch_def Let_def)

lemma rhythm_step_length: "length (rhythm_step pattern rm e) \<le> Suc (length rm)"
  by (cases e) (auto simp: rhythm_step_def Let_def split: prod.splits)

lemma rhythm_loop_length:
  "length (foldl (rhythm_step pattern) rm es) \<le> length rm + length es"
proof (induction es arbitrary: rm)
  case Nil
  then show ?case by simp
next
  case (Cons e es)
  have "length (foldl (rhythm_step pattern) (rhythm_step pattern rm e) es)
          \<le> length (rhythm_step pattern rm e) + length es"
    by (rule Cons.IH)
  also have "\<dots> \<le> Suc (length rm) + length es"
    using rhythm_step_length[of pattern rm e] by simp
  finally show ?case by simp
qed

lemma map_butlast_last:
  assumes "rm \<noteq> []" "f x = f (last rm)"
  shows "map f (butlast rm @ [x]) = map f rm"
proof -
  have "map f rm = map f (butlast rm @ [last rm])" using assms(1) by simp
  also have "\<dots> = map f (butlast rm @ [x])" using assms(2) by simp
  finally show ?thesis by simp
qed

lemma rhythm_step_off:
  assumes "\<not> on_beat pattern e"
  shows "map pitch (rhythm_step pattern rm e) = map pitch rm"
    and "map velocity_of (rhythm_step pattern rm e) = map velocity_of rm"
    and "length (rhythm_step pattern rm e) = length rm"
proof -
  obtain i p duration velocity where e: "e = (i, p, duration, velocity)"
    by (cases e) auto
  have z: "pattern ! (i mod length pattern) = 0" using assms by (simp add: on_beat_def e)
  show "map pitch (rhythm_step pattern rm e) = map pitch rm"
  proof (cases "rm = []")
    case True
    then show ?thesis by (simp add: rhythm_step_def e z)
  next
    case False
    obtain pn pd pv where l: "last rm = (pn, pd, pv)" by (cases "last rm") auto
    have "map pitch (butlast rm @ [(pn, pd + duration div 2, pv)]) = map pitch rm"
      by (rule map_butlast_last[OF False]) (simp add: l pitch_def)
    then show ?thesis using False by (simp add: rhythm_step_def e z l)
  qed
  show "map velocity_of (rhythm_step pattern rm e) = map velocity_of rm"
  proof (cases "rm = []")
    case True
    then show ?thesis by (simp add: rhythm_step_def e z)
  next
    case False
    obtain pn pd pv where l: "last rm = (pn, pd, pv)" by (cases "last rm") auto
    have "map velocity_of (butlast rm @ [(pn, pd + duration div 2, pv)]) = map velocity_of rm"
      by (rule map_butlast_last[OF False]) (simp add: l velocity_of_def)
    then show ?thesis using False by (simp add: rhythm_step_def e z l)
  qed
  then have "length (map velocity_of (rhythm_step pattern rm e)) = length (map velocity_of rm)"
    by (rule arg_cong)
  then show "length (rhythm_step pattern rm e) = length rm"
    by (simp only: length_map)
qed

lemma rhythm_step_on:
  assumes "on_beat pattern e"
  shows "rhythm_step pattern rm e = rm @ [rhythm_note (fst e) (snd e)]"
  using assms by (cases e) (simp add: rhythm_step_def on_beat_def)

lemma rhythm_loop_pitch:
  "map pitch (foldl (rhythm_step pattern) rm es)
     = map pitch rm @ map (\<lambda>e. pitch (snd e)) (filter (on_beat pattern) es)"
proof (induction es arbitrary: rm)
  case Nil
  then show ?case by simp
next
  case (Cons e es)
  show ?case
  proof (cases "on_beat pattern e")
    case True
    then show ?thesis
      by (simp add: Cons.IH rhythm_step_on pitch_rhythm_note)
  next
    case False
    then show ?thesis
      by (simp add: Cons.IH rhythm_step_off(1))
  qed
qed

lemma rhythm_loop_velocity:
  "map velocity_of (foldl (rhythm_step pattern) rm es)
     = map velocity_of rm
       @ map (\<lambda>e. velocity_of (rhythm_note (fst e) (snd e))) (filter (on_beat pattern) es)"
proof (induction es arbitrary: rm)
  case Nil
  then show ?case by simp
next
  case (Cons e es)
  show ?case
  proof (cases "on_beat pattern e")
    case True
    then show ?thesis
      by (simp add: Cons.IH rhythm_step_on)
  next
    case False
    then show ?thesis
      by (simp add: Cons.IH rhythm_step_off(2))
  qed
qed

lemma on_beat_pattern_for:
  "on_beat (pattern_for name) e \<longleftrightarrow> pattern_for name ! (fst e mod length (pattern_for name)) = 1"
  using pattern_for_nth[of name "fst e"] by (auto simp: on_beat_def)

section \<open>The harmony loops\<close>

lemma middle_step_length: "length (fst (middle_step s e)) \<le> Suc (length (fst s))"
  by (cases s; cases e) (simp add: middle_step_def Let_def)

lemma middle_loop_length:
  "length (fst (foldl middle_step s es)) \<le> length (fst s) + length es"
proof (induction es arbitrary: s)
  case Nil
  then show ?case by simp
next
  case (Cons e es)
  have "length (fst (foldl middle_step (middle_step s e) es))
          \<le> length (fst (middle_step s e)) + length es"
    by (rule Cons.IH)
  also have "\<dots> \<le> Suc (length (fst s)) + length es"
    using middle_step_length[of s e] by simp
  finally show ?case by simp
qed

section \<open>Golden subdivision\<close>

lemma subdivide_sum:
  "sum_list (snd (subdivide rnd len depth (k, subdivisions))) = sum_list subdivisions + len"
proof (induction rnd len depth "(k, subdivisions)" arbitrary: k subdivisions rule: subdivide.induct)
  case (1 rnd len depth k subdivisions)
  show ?case
  proof (cases "3 \<le> depth \<or> len < 4")
    case True
    then show ?thesis by (simp add: subdivide.simps[of rnd len depth k subdivisions])
  next
    case False
    define major where "major = py_int (fmul (float_of_int len) phi_inverse)"
    define minor where "minor = len - major"
    show ?thesis
    proof (cases "rnd k < fl (6 / 10)")
      case draw: True
      obtain k1 s1 where r1: "subdivide rnd major (depth + 1) (Suc k, subdivisions) = (k1, s1)"
        by (cases "subdivide rnd major (depth + 1) (Suc k, subdivisions)") auto
      have a: "sum_list s1 = sum_list subdivisions + major"
        using "1.hyps"(1)[OF False major_def minor_def draw] r1 by simp
      have b: "sum_list (snd (subdivide rnd minor (depth + 1) (k1, s1))) = sum_list s1 + minor"
        using "1.hyps"(2)[OF False major_def minor_def draw r1[symmetric]] by simp
      have "subdivide rnd len depth (k, subdivisions) = subdivide rnd minor (depth + 1) (k1, s1)"
        using False draw r1
        by (simp add: subdivide.simps[of rnd len depth k subdivisions] Let_def major_def minor_def)
      then show ?thesis using a b by (simp add: minor_def)
    next
      case nodraw: False
      have "subdivide rnd len depth (k, subdivisions) = (Suc k, subdivisions @ [major, minor])"
        using False nodraw
        by (simp add: subdivide.simps[of rnd len depth k subdivisions] Let_def major_def minor_def)
      then show ?thesis by (simp add: minor_def)
    qed
  qed
qed

lemma sum_list_insort: "sum_list (insort (x::int) xs) = x + sum_list xs"
  by (induction xs) simp_all

lemma sum_list_sort: "sum_list (sort (xs::int list)) = sum_list xs"
  by (induction xs) (simp_all add: sum_list_insort)

text \<open>At a split the length is at least 4, so \<^verbatim>\<open>int\<close> takes the floor there.\<close>

lemma subdivide_major_floor:
  assumes "4 \<le> len"
  shows "py_int (fmul (float_of_int len) phi_inverse) = \<lfloor>fmul (float_of_int len) phi_inverse\<rfloor>"
proof -
  have "0 \<le> phi_inverse" using phi_inverse_bounds(1) by simp
  then have "0 \<le> fmul (float_of_int len) phi_inverse"
    using assms by (intro fmul_nonneg float_of_int_nonneg) simp_all
  then show ?thesis by (simp add: py_int_def)
qed

section \<open>Fibonacci numbers and the melody loop\<close>

lemma fib_fold_inv:
  fixes fib :: "int list"
  assumes "length fib = a" "2 \<le> a" "\<forall>v\<in>set fib. 1 \<le> v"
  shows "length (fold (\<lambda>i fib. fib @ [fib ! (i - 1) + fib ! (i - 2)]) [a..<a + k] fib) = a + k
         \<and> (\<forall>v\<in>set (fold (\<lambda>i fib. fib @ [fib ! (i - 1) + fib ! (i - 2)]) [a..<a + k] fib). 1 \<le> v)"
  using assms
proof (induction k arbitrary: a fib)
  case 0
  then show ?case by simp
next
  case (Suc k)
  let ?f = "\<lambda>i fib. fib @ [fib ! (i - 1) + fib ! (i - 2)]"
  let ?fib' = "fib @ [fib ! (a - 1) + fib ! (a - 2)]"
  have u: "[a..<a + Suc k] = a # [Suc a..<Suc a + k]" by (simp add: upt_rec)
  have m1: "fib ! (a - 1) \<in> set fib" "fib ! (a - 2) \<in> set fib"
    using Suc.prems(1,2) by (auto intro: nth_mem)
  then have p: "1 \<le> fib ! (a - 1)" "1 \<le> fib ! (a - 2)" using Suc.prems(3) by blast+
  have l: "length ?fib' = Suc a" using Suc.prems(1) by simp
  have q: "\<forall>v\<in>set ?fib'. 1 \<le> v" using Suc.prems(3) p by auto
  have "2 \<le> Suc a" using Suc.prems(2) by simp
  note ih = Suc.IH[OF l this q]
  have e: "fold ?f [a..<a + Suc k] fib = fold ?f [Suc a..<Suc a + k] ?fib'"
    by (simp only: u fold.simps o_apply)
  have n: "Suc a + k = a + Suc k" by simp
  show ?case unfolding e using ih unfolding n by blast
qed

lemma fibonacci_sequence_props:
  "length (fibonacci_sequence n) = nat n" "\<forall>v\<in>set (fibonacci_sequence n). 1 \<le> v"
proof -
  consider "n \<le> 0" | "n = 1" | "n = 2" | "3 \<le> n" by linarith
  then have "length (fibonacci_sequence n) = nat n \<and> (\<forall>v\<in>set (fibonacci_sequence n). 1 \<le> v)"
  proof cases
    case 4
    have "2 + (nat n - 2) = nat n" using 4 by simp
    then show ?thesis
      using fib_fold_inv[of "[1, 1]" 2 "nat n - 2"] 4
      by (simp add: fibonacci_sequence_def)
  qed (simp_all add: fibonacci_sequence_def)
  then show "length (fibonacci_sequence n) = nat n" "\<forall>v\<in>set (fibonacci_sequence n). 1 \<le> v"
    by blast+
qed

lemma fold_max_ge: "(x::int) \<le> fold max r x"
proof (induction r arbitrary: x)
  case Nil
  then show ?case by simp
next
  case (Cons a r)
  have "x \<le> max a x" by simp
  also have "\<dots> \<le> fold max r (max a x)" by (rule Cons.IH)
  finally show ?case by simp
qed

lemma py_max_pos:
  assumes "fib \<noteq> []" "\<forall>v\<in>set fib. 1 \<le> v"
  shows "\<exists>m. py_max fib = Inr m \<and> m \<noteq> 0"
proof -
  obtain x r where f: "fib = x # r" using assms(1) by (cases fib) auto
  have "1 \<le> x" using assms(2) f by simp
  then have "1 \<le> fold max r x" using fold_max_ge[of x r] by linarith
  then show ?thesis by (simp add: py_max_def f)
qed

lemma py_index_in_range:
  "0 \<le> i \<Longrightarrow> i < int (length xs) \<Longrightarrow> py_index xs i = Inr (xs ! nat i)"
  by (simp add: py_index_def)

lemma duration_index_ok:
  "\<exists>d. py_index golden_durations
          (py_int (py_fmod (fmul (float_of_int (int i)) phi)
                     (float_of_int (int (length golden_durations))))) = Inr d"
proof -
  let ?x = "fmul (float_of_int (int i)) phi"
  have l: "int (length golden_durations) = 4" by (simp add: golden_durations_def)
  have "0 \<le> py_fmod ?x 4" "py_fmod ?x 4 < 4"
    using py_fmod_range[OF index_phi_nonneg, of 4 i] by simp_all
  then have "0 \<le> py_int (py_fmod ?x 4)" "py_int (py_fmod ?x 4) < 4"
    using py_int_range[of "py_fmod ?x 4" 4] by simp_all
  then show ?thesis
    using py_index_in_range[of "py_int (py_fmod ?x 4)" golden_durations]
    by (simp add: l float_of_int_numerals)
qed

lemma melody_note_ok:
  assumes "scale_notes \<noteq> []" "i < length fib_seq" "\<forall>v\<in>set fib_seq. 1 \<le> v"
  shows "\<exists>b d. b \<in> set scale_notes
           \<and> melody_note r scale_notes fib_seq i
               = Inr (max 21 (min 108 (b + octave_shift i)), d,
                      max 32 (min 127 (64 + py_int (fmul (float_of_int 32)
                         (fsin (fmul (fmul (float_of_int (int i)) phi) (float_of_int 2)))))))"
proof -
  have ne: "fib_seq \<noteq> []" using assms(2) by auto
  have "int i mod int (length fib_seq) = int i" using assms(2) by simp
  then have a: "py_mod (int i) (int (length fib_seq)) = Inr (int i)"
    using ne by (simp add: py_mod_def)
  have b: "py_index fib_seq (int i) = Inr (fib_seq ! i)"
    using assms(2) py_index_in_range[of "int i" fib_seq] by simp
  obtain m where m: "py_max fib_seq = Inr m" "m \<noteq> 0"
    using py_max_pos[OF ne assms(3)] by blast
  define nf where "nf = fdiv (fadd (fadd (py_fmod (fmul (float_of_int (int i)) phi) (float_of_int 1))
      (int_truediv (fib_seq ! i) m)) (fmul r (fl (3 / 10)))) (fl (23 / 10))"
  define ni where "ni = py_int (fmul nf (float_of_int (int (length scale_notes)))) mod int (length scale_notes)"
  have lpos: "0 < int (length scale_notes)" using assms(1) by simp
  have c: "py_mod (py_int (fmul nf (float_of_int (int (length scale_notes))))) (int (length scale_notes)) = Inr ni"
    using lpos by (simp add: py_mod_def ni_def)
  have nr: "0 \<le> ni" "ni < int (length scale_notes)"
    using lpos by (simp_all add: ni_def)
  have d: "py_index scale_notes ni = Inr (scale_notes ! nat ni)"
    using nr by (rule py_index_in_range)
  have mem: "scale_notes ! nat ni \<in> set scale_notes"
    using nr by (intro nth_mem) simp
  obtain du where du: "py_index golden_durations
          (py_int (py_fmod (fmul (float_of_int (int i)) phi)
                     (float_of_int (int (length golden_durations))))) = Inr du"
    using duration_index_ok[of i] by blast
  have "melody_note r scale_notes fib_seq i
               = Inr (max 21 (min 108 (scale_notes ! nat ni + octave_shift i)), du,
                      max 32 (min 127 (64 + py_int (fmul (float_of_int 32)
                         (fsin (fmul (fmul (float_of_int (int i)) phi) (float_of_int 2)))))))"
    unfolding melody_note_def Let_def
    by (simp add: a b m c d du py_bind_def flip: nf_def)
  then show ?thesis using mem by blast
qed

lemma melody_note_note_ok:
  assumes "scale_notes \<noteq> []" "i < length fib_seq" "\<forall>v\<in>set fib_seq. 1 \<le> v"
  shows "\<exists>n. melody_note r scale_notes fib_seq i = Inr n \<and> note_ok scale_notes i n"
proof -
  obtain b d where b: "b \<in> set scale_notes"
    and m: "melody_note r scale_notes fib_seq i
               = Inr (max 21 (min 108 (b + octave_shift i)), d,
                      max 32 (min 127 (64 + py_int (fmul (float_of_int 32)
                         (fsin (fmul (fmul (float_of_int (int i)) phi) (float_of_int 2)))))))"
    using melody_note_ok[OF assms, of r] by blast
  have "note_ok scale_notes i (max 21 (min 108 (b + octave_shift i)), d,
                      max 32 (min 127 (64 + py_int (fmul (float_of_int 32)
                         (fsin (fmul (fmul (float_of_int (int i)) phi) (float_of_int 2)))))))"
    unfolding note_ok_def pitch_def velocity_of_def using b by auto
  then show ?thesis using m by simp
qed

lemma melody_loop_ok:
  assumes "scale_notes \<noteq> []" "\<forall>v\<in>set fib_seq. 1 \<le> v"
  shows "\<forall>i\<in>set idx. i < length fib_seq \<Longrightarrow>
         \<exists>ns. melody_loop rnd scale_notes fib_seq idx melody = Inr (melody @ ns)
              \<and> list_all2 (note_ok scale_notes) idx ns"
proof (induction idx arbitrary: melody)
  case Nil
  then show ?case by simp
next
  case (Cons i idx)
  have "i < length fib_seq" using Cons.prems by simp
  then obtain n where n: "melody_note (rnd i) scale_notes fib_seq i = Inr n" "note_ok scale_notes i n"
    using melody_note_note_ok[OF assms(1) _ assms(2), of i "rnd i"] by blast
  have "\<forall>j\<in>set idx. j < length fib_seq" using Cons.prems by simp
  then obtain ns where ns: "melody_loop rnd scale_notes fib_seq idx (melody @ [n]) = Inr ((melody @ [n]) @ ns)"
      "list_all2 (note_ok scale_notes) idx ns"
    using Cons.IH[of "melody @ [n]"] by blast
  have "melody_loop rnd scale_notes fib_seq (i # idx) melody = Inr (melody @ (n # ns))"
    using n(1) ns(1) by (simp add: py_bind_def)
  moreover have "list_all2 (note_ok scale_notes) (i # idx) (n # ns)"
    using n(2) ns(2) by simp
  ultimately show ?case by blast
qed

lemma generate_golden_melody_ok:
  assumes "scale_notes \<noteq> []"
  shows "\<exists>melody. generate_golden_melody rnd scale_notes len root_note = Inr melody
           \<and> length melody = nat len
           \<and> (\<forall>i<nat len. note_ok scale_notes i (melody ! i))"
proof -
  let ?fib = "fibonacci_sequence len"
  have "\<forall>i\<in>set [0..<nat len]. i < length ?fib"
    by (simp add: fibonacci_sequence_props(1))
  then obtain ns where ns: "melody_loop rnd scale_notes ?fib [0..<nat len] [] = Inr ([] @ ns)"
      "list_all2 (note_ok scale_notes) [0..<nat len] ns"
    using melody_loop_ok[OF assms fibonacci_sequence_props(2), of "[0..<nat len]" len rnd "[]"]
    by blast
  have l: "length ns = nat len" using list_all2_lengthD[OF ns(2)] by simp
  have "\<forall>i<nat len. note_ok scale_notes i (ns ! i)"
  proof (intro allI impI)
    fix i assume i: "i < nat len"
    then have "note_ok scale_notes ([0..<nat len] ! i) (ns ! i)"
      using list_all2_nthD[OF ns(2), of i] by simp
    then show "note_ok scale_notes i (ns ! i)" using i by simp
  qed
  then show ?thesis using ns(1) l by (simp add: generate_golden_melody_def)
qed

lemma generate_golden_melody_empty:
  "len \<le> 0 \<Longrightarrow> generate_golden_melody rnd scale_notes len root_note = Inr []"
  by (simp add: generate_golden_melody_def)

lemma note_ok_set:
  assumes "length melody = n" "\<forall>i<n. note_ok scale_notes i (melody ! i)" "x \<in> set melody"
  shows "21 \<le> pitch x \<and> pitch x \<le> 108 \<and> 32 \<le> velocity_of x \<and> velocity_of x \<le> 127"
proof -
  obtain i where "i < length melody" "melody ! i = x"
    using assms(3) by (auto simp: in_set_conv_nth)
  then have "note_ok scale_notes i x" using assms(1,2) by auto
  then show ?thesis by (simp add: note_ok_def)
qed

section \<open>The analysis of short melodies\<close>

lemma analyze_single:
  "analyze_golden_ratios [n] =
     [''total_notes'' \<mapsto> IntV 1,
      ''note_range'' \<mapsto> IntV 0,
      ''avg_duration'' \<mapsto> FloatV (int_truediv (duration_of n) 1),
      ''avg_velocity'' \<mapsto> FloatV (int_truediv (velocity_of n) 1)]"
  by (simp add: analyze_golden_ratios_def Let_def pitch_intervals_def duration_ratios_def
      list_max_def list_min_def)

section \<open>Truncation toward zero at concrete inputs\<close>

lemma fl_more_fractions:
  "fl (- (1 / 4)) = - (1 / 4)" "fl (- (1 / 2)) = - (1 / 2)" "fl (13 / 16) = 13 / 16"
  "fl (7 / 8) = 7 / 8" "fl (7 / 4) = 7 / 4" "fl 0 = 0"
  using fl_dyadic[of "- 1" "- 2"] fl_dyadic[of "- 1" "- 1"] fl_dyadic[of 13 "- 4"]
    fl_dyadic[of 7 "- 3"] fl_dyadic[of 7 "- 2"] fl_zero
  by (simp_all add: power_int_minus)

lemma index2_bounds:
  "207 / 64 \<le> fmul (float_of_int (int 2)) phi" "fmul (float_of_int (int 2)) phi \<le> 13 / 4"
proof -
  have "207 / 64 \<le> 2 * phi" "2 * phi \<le> 13 / 4" using phi_bounds by simp_all
  then show "207 / 64 \<le> fmul (float_of_int (int 2)) phi" "fmul (float_of_int (int 2)) phi \<le> 13 / 4"
    using fl_mono[of "207 / 64" "2 * phi"] fl_mono[of "2 * phi" "13 / 4"]
    by (simp_all add: fmul_def float_of_int_numerals fl_fractions)
qed

lemma sin_just_past_pi:
  fixes x :: real
  assumes "207 / 64 \<le> x" "x \<le> 13 / 4"
  shows "- (1 / 4) \<le> sin x" "sin x < 0"
proof -
  have p: "3 \<le> pi" "pi < 16 / 5" using pi_ge_three pi_less_16_5 by simp_all
  have y: "0 < x - pi" "x - pi \<le> 1 / 4" using assms p by linarith+
  have "x - pi < pi" using y p by linarith
  then have "0 < sin (x - pi)" using y(1) by (intro sin_gt_zero) simp_all
  then show "sin x < 0" by simp
  have "sin (x - pi) \<le> x - pi" using y(1) by (intro sin_x_le_x) simp
  then show "- (1 / 4) \<le> sin x" using y(2) by simp
qed

lemma octave_factor_2_bounds: "- (1 / 2) \<le> octave_factor 2" "octave_factor 2 < 0"
proof -
  let ?x = "fmul (float_of_int (int 2)) phi"
  have s: "- (1 / 4) \<le> sin ?x" "sin ?x < 0"
    using sin_just_past_pi[OF index2_bounds] by simp_all
  have f: "- (1 / 4) \<le> fsin ?x" "fsin ?x < 0"
    using fl_mono[OF s(1)] fl_neg[OF s(2)] by (simp_all add: fsin_def fl_more_fractions)
  have "- (1 / 2) \<le> fsin ?x * 2" "fsin ?x * 2 < 0" using f by simp_all
  then have "- (1 / 2) \<le> fl (fsin ?x * 2)" "fl (fsin ?x * 2) < 0"
    using fl_mono[of "- (1 / 2)" "fsin ?x * 2"] fl_neg[of "fsin ?x * 2"]
    by (simp_all add: fl_more_fractions)
  then show "- (1 / 2) \<le> octave_factor 2" "octave_factor 2 < 0"
    by (simp_all add: octave_factor_def fmul_def float_of_int_numerals)
qed

lemma py_int_trunc:
  "\<bar>of_int (py_int x)\<bar> \<le> \<bar>x\<bar>" "\<bar>x - of_int (py_int x)\<bar> < 1"
  by (simp_all add: py_int_def) linarith+

lemma py_int_floor_cases:
  "py_int x = (if 0 \<le> x \<or> x = of_int \<lfloor>x\<rfloor> then \<lfloor>x\<rfloor> else \<lfloor>x\<rfloor> + 1)"
proof (cases "0 \<le> x \<or> x = of_int \<lfloor>x\<rfloor>")
  case True
  then show ?thesis
    by (auto simp: py_int_def) (metis ceiling_of_int)
next
  case False
  then have "\<lceil>x\<rceil> = \<lfloor>x\<rfloor> + 1"
    by (metis ceiling_altdef of_int_floor_cancel)
  then show ?thesis using False by (simp add: py_int_def)
qed

lemma total_notes_1_50_bounds:
  "13 / 8 \<le> fmul (float_of_int 1) (notes_per_second 50)"
  "fmul (float_of_int 1) (notes_per_second 50) \<le> 7 / 4"
proof -
  have q: "13 / 16 \<le> int_truediv 50 60" "int_truediv 50 60 \<le> 7 / 8"
    using fl_mono[of "13 / 16" "50 / 60"] fl_mono[of "50 / 60" "7 / 8"]
    by (simp_all add: int_truediv_def fl_more_fractions)
  have "13 / 8 \<le> int_truediv 50 60 * 2" "int_truediv 50 60 * 2 \<le> 7 / 4" using q by simp_all
  then have n: "13 / 8 \<le> notes_per_second 50" "notes_per_second 50 \<le> 7 / 4"
    using fl_mono[of "13 / 8" "int_truediv 50 60 * 2"] fl_mono[of "int_truediv 50 60 * 2" "7 / 4"]
    by (simp_all add: notes_per_second_def fmul_def float_of_int_numerals fl_fractions fl_more_fractions)
  then show "13 / 8 \<le> fmul (float_of_int 1) (notes_per_second 50)"
    "fmul (float_of_int 1) (notes_per_second 50) \<le> 7 / 4"
    using fl_mono[of "13 / 8" "notes_per_second 50"] fl_mono[of "notes_per_second 50" "7 / 4"]
    by (simp_all add: fmul_def float_of_int_numerals fl_fractions fl_more_fractions)
qed

lemma rne_above_half:
  fixes x :: real
  assumes "of_int n + 1 / 2 < x" "x < of_int n + 1"
  shows "rne x = n + 1"
proof -
  have "\<lfloor>x\<rfloor> = n" using assms by linarith
  then show ?thesis using assms by (simp add: rne_def Let_def)
qed

lemma octave_shift_2: "octave_shift 2 = 0"
proof -
  have "\<lceil>octave_factor 2\<rceil> = 0" using octave_factor_2_bounds by linarith
  then show ?thesis
    using octave_factor_2_bounds(2) by (simp add: octave_shift_def py_int_def)
qed

lemma int_truediv_nonneg: "0 \<le> a \<Longrightarrow> 0 \<le> b \<Longrightarrow> 0 \<le> int_truediv a b"
  by (simp add: int_truediv_def fl_nonneg)

lemma notes_per_second_nonneg: "0 \<le> t \<Longrightarrow> 0 \<le> notes_per_second t"
  unfolding notes_per_second_def
  by (intro fmul_nonneg int_truediv_nonneg float_of_int_nonneg) simp_all

lemma total_notes_10_120: "total_notes 10 120 = 40"
proof -
  have "int_truediv 120 60 = 2" by (simp add: int_truediv_def fl_numerals)
  then have "notes_per_second 120 = 4"
    by (simp add: notes_per_second_def fmul_def float_of_int_numerals fl_numerals)
  then have "fmul (float_of_int 10) (notes_per_second 120) = 40"
    by (simp add: fmul_def float_of_int_numerals fl_numerals)
  then show ?thesis by (simp add: total_notes_def py_int_def)
qed

section \<open>The classical scenario, step by step\<close>

lemma filter_enumerate_length:
  "length (filter (\<lambda>e. P (fst e)) (enumerate 0 xs)) = length (filter P [0..<length xs])"
proof -
  have "filter P (map fst (enumerate 0 xs)) = map fst (filter (P \<circ> fst) (enumerate 0 xs))"
    by (rule filter_map)
  then have "length (filter P (map fst (enumerate 0 xs))) = length (filter (P \<circ> fst) (enumerate 0 xs))"
    by simp
  then show ?thesis by (simp add: comp_def)
qed

lemma straight_beats_40:
  "length (filter (\<lambda>i. [1, 0, 1, 0, 1, 0, 1, 0 :: int] ! (i mod 8) = 1) [0..<40]) = 20"
  by code_simp


lemma apply_golden_rhythm_straight_40:
  assumes "length melody0 = 40"
  shows "length (apply_golden_rhythm melody0 ''straight'') = 20"
proof -
  let ?p = "[1, 0, 1, 0, 1, 0, 1, 0 :: int]"
  have "map pitch (apply_golden_rhythm melody0 ''straight'')
     = map (\<lambda>e. pitch (snd e)) (filter (on_beat ?p) (enumerate 0 melody0))"
    using rhythm_loop_pitch[of ?p "[]" "enumerate 0 melody0"]
    by (simp add: apply_golden_rhythm_def pattern_for_straight)
  then have "length (map pitch (apply_golden_rhythm melody0 ''straight''))
     = length (map (\<lambda>e. pitch (snd e)) (filter (on_beat ?p) (enumerate 0 melody0)))"
    by (rule arg_cong)
  then have "length (apply_golden_rhythm melody0 ''straight'')
     = length (filter (on_beat ?p) (enumerate 0 melody0))"
    by (simp only: length_map)
  also have "filter (on_beat ?p) (enumerate 0 melody0)
     = filter (\<lambda>e. ?p ! (fst e mod 8) = 1) (enumerate 0 melody0)"
    using on_beat_pattern_for[of "''straight''"]
    by (intro filter_cong) (simp_all add: pattern_for_straight)
  also have "length \<dots> = length (filter (\<lambda>i. ?p ! (i mod 8) = 1) [0..<length melody0])"
    by (rule filter_enumerate_length)
  also have "\<dots> = 20" unfolding assms by (rule straight_beats_40)
  finally show ?thesis .
qed

lemma apply_golden_rhythm_pitch_subset:
  "set (map pitch (apply_golden_rhythm melody pattern_name)) \<subseteq> set (map pitch melody)"
proof -
  let ?p = "pattern_for pattern_name"
  have a: "map pitch (apply_golden_rhythm melody pattern_name)
     = map (\<lambda>e. pitch (snd e)) (filter (on_beat ?p) (enumerate 0 melody))"
    using rhythm_loop_pitch[of ?p "[]" "enumerate 0 melody"]
    by (simp add: apply_golden_rhythm_def)
  have "map (\<lambda>e. pitch (snd e)) (enumerate 0 melody) = map pitch (map snd (enumerate 0 melody))"
    by (simp only: map_map comp_def)
  also have "map snd (enumerate 0 melody) = melody" by (rule map_snd_enumerate)
  finally have m: "map (\<lambda>e. pitch (snd e)) (enumerate 0 melody) = map pitch melody" .
  have "set (map (\<lambda>e. pitch (snd e)) (filter (on_beat ?p) (enumerate 0 melody)))
          \<subseteq> set (map (\<lambda>e. pitch (snd e)) (enumerate 0 melody))"
    by auto
  then show ?thesis using a m by simp
qed

lemma analyze_total_notes:
  "melody \<noteq> [] \<Longrightarrow> analyze_golden_ratios melody ''total_notes'' = Some (IntV (int (length melody)))"
  by (simp add: analyze_golden_ratios_def Let_def)

lemma percentage_range:
  assumes "0 \<le> c" "c \<le> n" "0 < n"
  shows "0 \<le> fmul (int_truediv c n) (float_of_int 100)"
    and "fmul (int_truediv c n) (float_of_int 100) \<le> 100"
proof -
  have q: "0 \<le> real_of_int c / real_of_int n" "real_of_int c / real_of_int n \<le> 1"
    using assms by simp_all
  have d: "0 \<le> int_truediv c n" "int_truediv c n \<le> 1"
    using fl_mono[OF q(1)] fl_mono[OF q(2)] by (simp_all add: int_truediv_def fl_zero fl_numerals)
  have "0 \<le> int_truediv c n * 100" "int_truediv c n * 100 \<le> 100" using d by simp_all
  then show "0 \<le> fmul (int_truediv c n) (float_of_int 100)"
    and "fmul (int_truediv c n) (float_of_int 100) \<le> 100"
    using fl_mono[of 0 "int_truediv c n * 100"] fl_mono[of "int_truediv c n * 100" 100]
    by (simp_all add: fmul_def float_of_int_numerals fl_zero fl_numerals)
qed

lemma analyze_golden_ratio_percentage:
  assumes "2 \<le> length melody"
  shows "\<exists>p. analyze_golden_ratios melody ''golden_ratio_percentage'' = Some (FloatV p)
           \<and> 0 \<le> p \<and> p \<le> 100"
proof -
  let ?iv = "pitch_intervals (map pitch melody)"
  let ?c = "int (length (filter (\<lambda>v. v \<in> set golden_intervals) ?iv))"
  let ?p = "fmul (int_truediv ?c (int (length ?iv))) (float_of_int 100)"
  have l: "length ?iv = length melody - 1" by (simp add: pitch_intervals_def)
  then have ne: "?iv \<noteq> []" using assms by (cases ?iv) simp_all
  have m: "melody \<noteq> []" using assms by auto
  have "?c \<le> int (length ?iv)" by simp
  moreover have "0 < int (length ?iv)" using ne by simp
  ultimately have r: "0 \<le> ?p" "?p \<le> 100"
    using percentage_range[of ?c "int (length ?iv)"] by simp_all
  have "analyze_golden_ratios melody ''golden_ratio_percentage'' = Some (FloatV ?p)"
    using m ne by (simp add: analyze_golden_ratios_def Let_def)
  then show ?thesis using r by blast
qed


lemma scales_major: "scales ''major'' = Some [0, 2, 4, 5, 7, 9, 11]"
  by (simp add: scales_def)

lemma classical_rhythm:
  "t_rhythm (case style_templates ''classical'' of Some t \<Rightarrow> t | None \<Rightarrow> classical_template)
     = ''straight''"
  by (simp add: style_templates_def classical_template_def)

section \<open>Claims on the rhythm shaper\<close>

text \<open>
  Claim C8. For every input note sequence and every pattern name, known or unknown,
  the sequence \<^verbatim>\<open>apply_golden_rhythm\<close> returns is at most as long as the input sequence.
\<close>

theorem apply_golden_rhythm_length_le:
  "length (apply_golden_rhythm melody pattern_name) \<le> length melody"
  using rhythm_loop_length[of "pattern_for pattern_name" "[]" "enumerate 0 melody"]
  by (simp add: apply_golden_rhythm_def)

theorem apply_golden_rhythm_length_le_witness:
  "length (apply_golden_rhythm [(60, 480, 80), (62, 480, 80), (64, 480, 80)] ''no such pattern'') \<le> 3"
  using apply_golden_rhythm_length_le[of "[(60, 480, 80), (62, 480, 80), (64, 480, 80)]" "''no such pattern''"]
  by simp

text \<open>
  Claim C10. \<^verbatim>\<open>apply_golden_rhythm\<close> never changes a pitch. For every input sequence and
  pattern name, the pitches of the output are the pitches of the input notes at the
  indices \<open>i\<close> with \<open>pattern[i mod len(pattern)] = 1\<close>, in input order. Merging a
  pattern-0 note changes only the duration of the note emitted before it: the output
  velocities are those the beat notes were emitted with, and no pitch is new.
\<close>

theorem apply_golden_rhythm_keeps_pitch:
  "map pitch (apply_golden_rhythm melody pattern_name)
     = map (\<lambda>e. pitch (snd e))
         (filter (\<lambda>e. pattern_for pattern_name ! (fst e mod length (pattern_for pattern_name)) = 1)
            (enumerate 0 melody))
   \<and> map velocity_of (apply_golden_rhythm melody pattern_name)
     = map (\<lambda>e. velocity_of (rhythm_note (fst e) (snd e)))
         (filter (\<lambda>e. pattern_for pattern_name ! (fst e mod length (pattern_for pattern_name)) = 1)
            (enumerate 0 melody))
   \<and> set (map pitch (apply_golden_rhythm melody pattern_name)) \<subseteq> set (map pitch melody)"
proof -
  let ?p = "pattern_for pattern_name"
  have f: "filter (on_beat ?p) es = filter (\<lambda>e. ?p ! (fst e mod length ?p) = 1) es" for es
    by (rule filter_cong) (simp_all add: on_beat_pattern_for)
  have a: "map pitch (apply_golden_rhythm melody pattern_name)
     = map (\<lambda>e. pitch (snd e)) (filter (\<lambda>e. ?p ! (fst e mod length ?p) = 1) (enumerate 0 melody))"
    using rhythm_loop_pitch[of ?p "[]" "enumerate 0 melody"]
    by (simp add: apply_golden_rhythm_def f)
  have b: "map velocity_of (apply_golden_rhythm melody pattern_name)
     = map (\<lambda>e. velocity_of (rhythm_note (fst e) (snd e)))
         (filter (\<lambda>e. ?p ! (fst e mod length ?p) = 1) (enumerate 0 melody))"
    using rhythm_loop_velocity[of ?p "[]" "enumerate 0 melody"]
    by (simp add: apply_golden_rhythm_def f)
  have m: "map (\<lambda>e. pitch (snd e)) (enumerate 0 melody) = map pitch melody"
  proof -
    have "map (\<lambda>e. pitch (snd e)) (enumerate 0 melody) = map pitch (map snd (enumerate 0 melody))"
      by (simp only: map_map comp_def)
    also have "map snd (enumerate 0 melody) = melody" by (rule map_snd_enumerate)
    finally show ?thesis .
  qed
  have "set (map (\<lambda>e. pitch (snd e)) (filter (\<lambda>e. ?p ! (fst e mod length ?p) = 1) (enumerate 0 melody)))
          \<subseteq> set (map (\<lambda>e. pitch (snd e)) (enumerate 0 melody))"
    by auto
  then have c: "set (map pitch (apply_golden_rhythm melody pattern_name)) \<subseteq> set (map pitch melody)"
    using a m by simp
  show ?thesis using a b c by blast
qed

theorem apply_golden_rhythm_keeps_pitch_witness:
  "map pitch (apply_golden_rhythm [(60, 480, 80), (62, 240, 90), (64, 480, 70)] ''straight'') = [60, 64]"
  using apply_golden_rhythm_keeps_pitch[of "[(60, 480, 80), (62, 240, 90), (64, 480, 70)]" "''straight''"]
  by (simp add: pattern_for_straight enumerate_eq_zip pitch_def)

section \<open>Claims on the harmony generator\<close>

text \<open>
  Claim C7. For every melody, \<^verbatim>\<open>generate_golden_harmony\<close> returns exactly two voices, the
  bass line first and the middle voice second. The bass line has one note for each note
  of the melody, so its length is the melody's; the middle voice is at most as long as
  the melody.
\<close>

theorem generate_golden_harmony_voices:
  "length (generate_golden_harmony melody scale_notes) = 2
   \<and> generate_golden_harmony melody scale_notes ! 0 = map bass_of melody
   \<and> length (generate_golden_harmony melody scale_notes ! 0) = length melody
   \<and> generate_golden_harmony melody scale_notes ! 1
       = fst (foldl middle_step ([], phi, 0) (enumerate 0 melody))
   \<and> length (generate_golden_harmony melody scale_notes ! 1) \<le> length melody"
  using middle_loop_length[of "([], phi, 0)" "enumerate 0 melody"]
  by (simp add: generate_golden_harmony_def)

theorem generate_golden_harmony_voices_witness:
  "length (generate_golden_harmony [(60, 480, 80), (64, 480, 80)] [60, 62, 64]) = 2
   \<and> length (generate_golden_harmony [(60, 480, 80), (64, 480, 80)] [60, 62, 64] ! 0) = 2
   \<and> length (generate_golden_harmony [(60, 480, 80), (64, 480, 80)] [60, 62, 64] ! 1) \<le> 2"
proof -
  have n: "length [(60, 480, 80), (64, 480, 80 :: int) :: note_event] = 2" by simp
  show ?thesis
    using generate_golden_harmony_voices[of "[(60, 480, 80), (64, 480, 80)]" "[60, 62, 64]"]
    unfolding n by blast
qed

section \<open>Claims on the golden subdivision\<close>

text \<open>
  Claim C6. For every total length (so for every non-negative one) and every outcome of
  the random draws made during the recursion, the leaf lengths that
  \<^verbatim>\<open>golden_ratio_subdivisions\<close> returns sum exactly to the total length: each split takes
  \<open>major\<close> and \<open>minor = length - major\<close>, so no level loses or gains anything.
\<close>

theorem golden_ratio_subdivisions_sum:
  "sum_list (fst (golden_ratio_subdivisions rnd total_length)) = total_length"
  using subdivide_sum[of rnd total_length 0 0 "[]"]
  by (simp add: golden_ratio_subdivisions_def Let_def sum_list_sort)

theorem golden_ratio_subdivisions_sum_witness:
  "sum_list (fst (golden_ratio_subdivisions (\<lambda>k. 0) 40)) = 40"
  using golden_ratio_subdivisions_sum[of "\<lambda>k. 0" 40] by simp

section \<open>Claims on the melody generator\<close>

text \<open>
  Claim C5. For every non-empty list of scale notes, every root note and every length of
  at least 1, \<^verbatim>\<open>generate_golden_melody\<close> returns (it raises nothing) a sequence of exactly
  that many note events, each with its pitch in 21..108 and its velocity in 32..127. For
  every length of 0 or less it returns the empty sequence and raises nothing.
\<close>

theorem generate_golden_melody_contract:
  "(scale_notes \<noteq> [] \<and> 1 \<le> len \<longrightarrow>
      (\<exists>melody. generate_golden_melody rnd scale_notes len root_note = Inr melody
         \<and> int (length melody) = len
         \<and> (\<forall>n\<in>set melody. 21 \<le> pitch n \<and> pitch n \<le> 108
                \<and> 32 \<le> velocity_of n \<and> velocity_of n \<le> 127)))
   \<and> (len \<le> 0 \<longrightarrow> generate_golden_melody rnd scale_notes len root_note = Inr [])"
proof (intro conjI impI)
  assume a: "scale_notes \<noteq> [] \<and> 1 \<le> len"
  then obtain melody where m: "generate_golden_melody rnd scale_notes len root_note = Inr melody"
      "length melody = nat len" "\<forall>i<nat len. note_ok scale_notes i (melody ! i)"
    using generate_golden_melody_ok[of scale_notes rnd len root_note] by blast
  have "int (length melody) = len" using m(2) a by simp
  moreover have "\<forall>n\<in>set melody. 21 \<le> pitch n \<and> pitch n \<le> 108
                \<and> 32 \<le> velocity_of n \<and> velocity_of n \<le> 127"
    using note_ok_set[OF m(2,3)] by blast
  ultimately show "\<exists>melody. generate_golden_melody rnd scale_notes len root_note = Inr melody
         \<and> int (length melody) = len
         \<and> (\<forall>n\<in>set melody. 21 \<le> pitch n \<and> pitch n \<le> 108
                \<and> 32 \<le> velocity_of n \<and> velocity_of n \<le> 127)"
    using m(1) by blast
next
  assume "len \<le> 0"
  then show "generate_golden_melody rnd scale_notes len root_note = Inr []"
    by (rule generate_golden_melody_empty)
qed

theorem generate_golden_melody_contract_witness:
  "(\<exists>melody. generate_golden_melody (\<lambda>k. 1 / 2) [60, 62, 64] 3 60 = Inr melody
         \<and> int (length melody) = 3
         \<and> (\<forall>n\<in>set melody. 21 \<le> pitch n \<and> pitch n \<le> 108
                \<and> 32 \<le> velocity_of n \<and> velocity_of n \<le> 127))
   \<and> generate_golden_melody (\<lambda>k. 1 / 2) [60, 62, 64] (- 2) 60 = Inr []"
  using generate_golden_melody_contract[of "[60, 62, 64]" 3 "\<lambda>k. 1 / 2" 60]
    generate_golden_melody_contract[of "[60, 62, 64]" "- 2" "\<lambda>k. 1 / 2" 60]
  by simp

section \<open>Claims on the analyzer\<close>

text \<open>
  Claim C9. \<^verbatim>\<open>analyze_golden_ratios\<close> on the empty sequence returns the empty dictionary
  and does not fail. On the one-note sequence \<^verbatim>\<open>[(60, 480, 80)]\<close> it returns a dictionary
  with \<^verbatim>\<open>total_notes\<close> 1 and \<^verbatim>\<open>note_range\<close> 0 that has none of the keys
  \<^verbatim>\<open>avg_interval\<close>, \<^verbatim>\<open>max_interval\<close>, \<^verbatim>\<open>golden_ratio_percentage\<close> and
  \<^verbatim>\<open>phi_duration_percentage\<close>: its keys are the four that need no pair of notes.
\<close>

theorem analyze_golden_ratios_small:
  "analyze_golden_ratios [] = Map.empty
   \<and> dom (analyze_golden_ratios []) = {}
   \<and> analyze_golden_ratios [(60, 480, 80)] ''total_notes'' = Some (IntV 1)
   \<and> analyze_golden_ratios [(60, 480, 80)] ''note_range'' = Some (IntV 0)
   \<and> analyze_golden_ratios [(60, 480, 80)] ''avg_interval'' = None
   \<and> analyze_golden_ratios [(60, 480, 80)] ''max_interval'' = None
   \<and> analyze_golden_ratios [(60, 480, 80)] ''golden_ratio_percentage'' = None
   \<and> analyze_golden_ratios [(60, 480, 80)] ''phi_duration_percentage'' = None
   \<and> dom (analyze_golden_ratios [(60, 480, 80)])
       = {''total_notes'', ''note_range'', ''avg_duration'', ''avg_velocity''}"
proof -
  have e: "analyze_golden_ratios [] = Map.empty"
    by (simp add: analyze_golden_ratios_def)
  show ?thesis
    unfolding analyze_single e by (simp add: insert_commute)
qed

theorem analyze_golden_ratios_small_witness:
  "analyze_golden_ratios [(60, 480, 80)] ''total_notes'' = Some (IntV 1)
   \<and> analyze_golden_ratios [(60, 480, 80)] ''golden_ratio_percentage'' = None"
  using analyze_golden_ratios_small by blast

section \<open>Claims on the orchestrator's note count\<close>

text \<open>
  Claim C1, as amended. The total note count that \<^verbatim>\<open>generate_complete_composition\<close>
  passes to the melody generator is \<^verbatim>\<open>int(duration_seconds * (tempo_bpm / 60 * 2))\<close>: the
  float product truncated toward zero, so never larger in magnitude than the product and
  less than 1 away from it. For a non-negative duration and tempo it is the floor of the
  product, not the nearest integer.
\<close>

theorem total_notes_truncates:
  "\<bar>real_of_int (total_notes d t)\<bar> \<le> \<bar>fmul (float_of_int d) (notes_per_second t)\<bar>
   \<and> \<bar>fmul (float_of_int d) (notes_per_second t) - real_of_int (total_notes d t)\<bar> < 1
   \<and> (0 \<le> d \<and> 0 \<le> t \<longrightarrow> total_notes d t = \<lfloor>fmul (float_of_int d) (notes_per_second t)\<rfloor>)"
proof -
  let ?x = "fmul (float_of_int d) (notes_per_second t)"
  have "0 \<le> d \<and> 0 \<le> t \<longrightarrow> 0 \<le> ?x"
    using notes_per_second_nonneg[of t] float_of_int_nonneg[of d] fmul_nonneg by blast
  then have "0 \<le> d \<and> 0 \<le> t \<longrightarrow> total_notes d t = \<lfloor>?x\<rfloor>"
    by (simp add: total_notes_def py_int_def)
  then show ?thesis
    using py_int_trunc[of ?x] by (simp add: total_notes_def)
qed

theorem total_notes_truncates_witness:
  "(0::int) \<le> 10 \<and> (0::int) \<le> 120 \<and> total_notes 10 120 = 40
   \<and> \<lfloor>fmul (float_of_int 10) (notes_per_second 120)\<rfloor> = 40"
  using total_notes_truncates[of 10 120] by (simp add: total_notes_10_120)

text \<open>
  The claim as stated, with \<open>round\<close>, fails at a duration of 1 second and a tempo of 50:
  the product is about 1.67, the code passes 1 note, and rounding (of the float product
  as of the exact one) gives 2.
\<close>

theorem total_notes_round_counterexample:
  "total_notes 1 50 = 1
   \<and> rne (fmul (float_of_int 1) (notes_per_second 50)) = 2
   \<and> rne (real_of_int 1 * (real_of_int 50 / 60 * 2)) = 2"
proof -
  let ?x = "fmul (float_of_int 1) (notes_per_second 50)"
  have "\<lfloor>?x\<rfloor> = 1" "0 \<le> ?x" using total_notes_1_50_bounds by linarith+
  then have a: "total_notes 1 50 = 1" by (simp add: total_notes_def py_int_def)
  have b: "rne ?x = 1 + 1"
    by (rule rne_above_half) (use total_notes_1_50_bounds in simp_all)
  have c: "rne (real_of_int 1 * (real_of_int 50 / 60 * 2)) = 1 + 1"
    by (rule rne_above_half) simp_all
  show ?thesis using a b c by simp
qed

section \<open>Claims on the octave shift\<close>

text \<open>
  Claim C3, as amended. In melody generation, for every index \<open>i\<close> the octave shift added
  to the base pitch is \<^verbatim>\<open>int(sin(i * phi) * 2) * 12\<close>, with truncation toward zero: it is
  \<open>floor(sin(i * phi) * 2) * 12\<close> when the factor is non-negative or a whole number and
  \<open>(floor(sin(i * phi) * 2) + 1) * 12\<close> when it is negative and fractional. The pitch of
  note \<open>i\<close> is a scale note plus this shift, clipped to 21..108.
\<close>

theorem octave_shift_truncates:
  "scale_notes \<noteq> [] \<Longrightarrow> i < nat len \<Longrightarrow>
     \<exists>melody. generate_golden_melody rnd scale_notes len root_note = Inr melody
       \<and> (\<exists>b\<in>set scale_notes. pitch (melody ! i) = max 21 (min 108 (b + octave_shift i)))
       \<and> 21 \<le> pitch (melody ! i) \<and> pitch (melody ! i) \<le> 108
       \<and> octave_shift i
           = (if 0 \<le> octave_factor i \<or> octave_factor i = of_int \<lfloor>octave_factor i\<rfloor>
              then \<lfloor>octave_factor i\<rfloor> else \<lfloor>octave_factor i\<rfloor> + 1) * 12"
proof -
  assume a: "scale_notes \<noteq> []" "i < nat len"
  obtain melody where m: "generate_golden_melody rnd scale_notes len root_note = Inr melody"
      "\<forall>i<nat len. note_ok scale_notes i (melody ! i)"
    using generate_golden_melody_ok[OF a(1), of rnd len root_note] by blast
  have n: "note_ok scale_notes i (melody ! i)" using m(2) a(2) by blast
  have s: "octave_shift i
           = (if 0 \<le> octave_factor i \<or> octave_factor i = of_int \<lfloor>octave_factor i\<rfloor>
              then \<lfloor>octave_factor i\<rfloor> else \<lfloor>octave_factor i\<rfloor> + 1) * 12"
    unfolding octave_shift_def using py_int_floor_cases[of "octave_factor i"] by simp
  show ?thesis using m(1) n s unfolding note_ok_def by blast
qed

theorem octave_shift_truncates_witness:
  "[60] \<noteq> ([] :: int list) \<and> (2::nat) < nat 3
   \<and> (\<exists>melody. generate_golden_melody (\<lambda>k. 0) [60] 3 60 = Inr melody \<and> pitch (melody ! 2) = 60)"
proof -
  have h: "[60] \<noteq> ([] :: int list)" "(2::nat) < nat 3" by simp_all
  show ?thesis
    using octave_shift_truncates[OF h, of "\<lambda>k. 0" 60] h by (auto simp: octave_shift_2)
qed

text \<open>
  The claim as stated, with the mathematical floor, fails at index 2: \<open>sin(2 * phi) * 2\<close>
  lies between \<open>-1/2\<close> and 0, the code shifts by 0, and the floor gives a shift of \<open>-12\<close>.
\<close>

theorem octave_shift_floor_counterexample:
  "octave_shift 2 = 0 \<and> \<lfloor>octave_factor 2\<rfloor> * 12 = - 12"
proof -
  have "\<lfloor>octave_factor 2\<rfloor> = - 1"
    using octave_factor_2_bounds by linarith
  then show ?thesis
    by (simp add: octave_shift_2)
qed

section \<open>Claims on unknown scale names\<close>

text \<open>
  Claim C2 says that a scale name missing from the scale catalog makes
  \<^verbatim>\<open>generate_complete_composition\<close> fall back to a default scale and complete. The code
  does not: at the scale name \<^verbatim>\<open>aeolian\<close>, which the menu of the program offers and the
  catalog lacks, the lookup \<^verbatim>\<open>self.music_theory.scales[scale_name]\<close> raises \<^verbatim>\<open>KeyError\<close>,
  whatever the random draws.
\<close>

theorem unknown_scale_raises:
  "generate_complete_composition rnd ''classical'' 60 120 ''aeolian'' 60 = Inl KeyError"
  by (simp add: generate_complete_composition_def Let_def scales_def)

section \<open>Claims on the end-to-end scenario\<close>

text \<open>
  Claim C4. For every outcome of the random draws,
  \<^verbatim>\<open>generate_complete_composition('classical', 10, 120, 'major', 60)\<close> returns: the melody
  after rhythm shaping has exactly 20 notes (40 are generated and the pattern
  \<^verbatim>\<open>straight\<close> keeps every second one), every pitch lies in 21..108, and the analysis
  dictionary has \<^verbatim>\<open>total_notes\<close> 20 and a \<^verbatim>\<open>golden_ratio_percentage\<close> between 0 and 100.
\<close>

theorem classical_scenario:
  "\<exists>melody harmony_parts analysis.
     generate_complete_composition rnd ''classical'' 10 120 ''major'' 60
       = Inr (melody, harmony_parts, analysis)
     \<and> length melody = 20
     \<and> (\<forall>n\<in>set melody. 21 \<le> pitch n \<and> pitch n \<le> 108)
     \<and> analysis ''total_notes'' = Some (IntV 20)
     \<and> (\<exists>p. analysis ''golden_ratio_percentage'' = Some (FloatV p) \<and> 0 \<le> p \<and> p \<le> 100)"
proof -
  define drawn where "drawn = snd (golden_ratio_subdivisions rnd 40)"
  define scale_notes where "scale_notes = map (\<lambda>interval. 60 + interval) [0, 2, 4, 5, 7, 9, 11 :: int]"
  have sn: "scale_notes \<noteq> []" by (simp add: scale_notes_def)
  obtain melody0 where m0: "generate_golden_melody (\<lambda>i. rnd (drawn + i)) scale_notes 40 60 = Inr melody0"
      "length melody0 = nat 40" "\<forall>i<nat 40. note_ok scale_notes i (melody0 ! i)"
    using generate_golden_melody_ok[OF sn, of "\<lambda>i. rnd (drawn + i)" 40 60] by blast
  define melody where "melody = apply_golden_rhythm melody0 ''straight''"
  define analysis where "analysis = (analyze_golden_ratios melody)
                         (''style'' \<mapsto> StrV ''classical'',
                          ''scale'' \<mapsto> StrV ''major'',
                          ''root_note'' \<mapsto> StrV (get_note_name 60),
                          ''tempo'' \<mapsto> IntV 120,
                          ''duration'' \<mapsto> IntV 10,
                          ''structure_points'' \<mapsto> ListV (fst (golden_ratio_subdivisions rnd 40)),
                          ''scale_info'' \<mapsto> get_scale_info ''major'')"
  have r: "generate_complete_composition rnd ''classical'' 10 120 ''major'' 60
       = Inr (melody, generate_golden_harmony melody scale_notes, analysis)"
    unfolding generate_complete_composition_def Let_def total_notes_10_120 scales_major
      classical_rhythm
    using m0(1)
    by (simp add: py_bind_def drawn_def scale_notes_def melody_def analysis_def)
  have l0: "length melody0 = 40" using m0(2) by simp
  have l: "length melody = 20"
    unfolding melody_def using l0 by (rule apply_golden_rhythm_straight_40)
  have b0: "\<forall>x\<in>set melody0. 21 \<le> pitch x \<and> pitch x \<le> 108"
    using note_ok_set[OF m0(2,3)] by blast
  have b: "\<forall>n\<in>set melody. 21 \<le> pitch n \<and> pitch n \<le> 108"
  proof
    fix n assume "n \<in> set melody"
    then have "pitch n \<in> set (map pitch melody)" by simp
    then have "pitch n \<in> set (map pitch melody0)"
      using apply_golden_rhythm_pitch_subset[of melody0 "''straight''"] by (auto simp: melody_def)
    then show "21 \<le> pitch n \<and> pitch n \<le> 108" using b0 by auto
  qed
  have ne: "melody \<noteq> []" using l by auto
  have t: "analysis ''total_notes'' = Some (IntV 20)"
    using analyze_total_notes[OF ne] l by (simp add: analysis_def)
  have "2 \<le> length melody" using l by simp
  then obtain p where p: "analyze_golden_ratios melody ''golden_ratio_percentage'' = Some (FloatV p)"
      "0 \<le> p" "p \<le> 100"
    using analyze_golden_ratio_percentage by blast
  have g: "analysis ''golden_ratio_percentage'' = Some (FloatV p)"
    using p(1) by (simp add: analysis_def)
  show ?thesis using r l b t g p(2,3) by blast
qed

theorem classical_scenario_witness:
  "\<exists>melody harmony_parts analysis.
     generate_complete_composition (\<lambda>k. 1 / 4) ''classical'' 10 120 ''major'' 60
       = Inr (melody, harmony_parts, analysis)
     \<and> length melody = 20
     \<and> analysis ''total_notes'' = Some (IntV 20)"
  using classical_scenario[of "\<lambda>k. 1 / 4"] by blast

end
